theory Spec2Isabelle
  imports Complex_Main "HOL-Library.Word"
begin

unbundle bit_operations_syntax

section \<open>Data model (types.ts)\<close>

text \<open>
  JavaScript numbers are modelled as real numbers. The luminance expression
  \<open>0.299 * r + 0.587 * g + 0.114 * b\<close> of \<open>findClosestColor\<close> and \<open>processImageData\<close> and
  the products \<open>g * 1.5\<close>, \<open>b * 1.5\<close> of \<open>findClosestColor\<close> are compared with a threshold,
  so they are evaluated as the source evaluates them, in IEEE 754 double precision:
  every literal, product and sum is rounded to the nearest double (\<open>roundDouble\<close>). The
  Lab conversion, the contrast adjustment and the error diffusion are taken exactly,
  without rounding. Bytes of a \<open>Uint8Array\<close> are 8-bit words; the samples of an
  \<open>ImageData\<close> buffer (a \<open>Uint8ClampedArray\<close>) are natural numbers, every store going
  through \<open>toUint8Clamp\<close>.
\<close>

datatype DitherMode = BlackWhiteColor | ThreeColor | FourColor | SixColor

datatype DitherAlgorithm = FloydSteinberg | Atkinson | Bayer | Stucki | Jarvis | NoDither

text \<open>
  \<open>ColorPaletteItem\<close>: the fields \<open>name, r, g, b, value\<close> of the source carry the
  prefix \<open>item_\<close>; the Chinese colour names are written in English.
\<close>

record ColorPaletteItem =
  item_name :: string
  item_r :: nat
  item_g :: nat
  item_b :: nat
  item_value :: "8 word"

record ImageData =
  width :: nat
  height :: nat
  data :: "nat list"

section \<open>Palettes and colour quantisation (dithering.ts)\<close>

definition rgbPalette :: "ColorPaletteItem list" where
  "rgbPalette =
    [\<lparr>item_name = ''yellow'', item_r = 255, item_g = 255, item_b = 0, item_value = 0xe2\<rparr>,
     \<lparr>item_name = ''green'', item_r = 41, item_g = 204, item_b = 20, item_value = 0x96\<rparr>,
     \<lparr>item_name = ''blue'', item_r = 0, item_g = 0, item_b = 255, item_value = 0x1d\<rparr>,
     \<lparr>item_name = ''red'', item_r = 255, item_g = 0, item_b = 0, item_value = 0x4c\<rparr>,
     \<lparr>item_name = ''black'', item_r = 0, item_g = 0, item_b = 0, item_value = 0x00\<rparr>,
     \<lparr>item_name = ''white'', item_r = 255, item_g = 255, item_b = 255, item_value = 0xff\<rparr>]"

definition fourColorPalette :: "ColorPaletteItem list" where
  "fourColorPalette =
    [\<lparr>item_name = ''black'', item_r = 0, item_g = 0, item_b = 0, item_value = 0x00\<rparr>,
     \<lparr>item_name = ''white'', item_r = 255, item_g = 255, item_b = 255, item_value = 0x01\<rparr>,
     \<lparr>item_name = ''red'', item_r = 255, item_g = 0, item_b = 0, item_value = 0x03\<rparr>,
     \<lparr>item_name = ''yellow'', item_r = 255, item_g = 255, item_b = 0, item_value = 0x02\<rparr>]"

definition threeColorPalette :: "ColorPaletteItem list" where
  "threeColorPalette =
    [\<lparr>item_name = ''black'', item_r = 0, item_g = 0, item_b = 0, item_value = 0x00\<rparr>,
     \<lparr>item_name = ''white'', item_r = 255, item_g = 255, item_b = 255, item_value = 0x01\<rparr>,
     \<lparr>item_name = ''red'', item_r = 255, item_g = 0, item_b = 0, item_value = 0x02\<rparr>]"

record Lab =
  lab_l :: real
  lab_a :: real
  lab_b :: real

text \<open>The two conditional expressions of \<open>rgbToLab\<close>, one per channel in the source.\<close>

definition gammaDecode :: "real \<Rightarrow> real" where
  "gammaDecode c = (if c > 0.04045 then ((c + 0.055) / 1.055) powr 2.4 else c / 12.92)"

definition labCurve :: "real \<Rightarrow> real" where
  "labCurve t = (if t > 0.008856 then t powr (1 / 3) else (7.787 * t) + (16 / 116))"

definition rgbToLab :: "real \<Rightarrow> real \<Rightarrow> real \<Rightarrow> Lab" where
  "rgbToLab r g b =
    (let r1 = gammaDecode (r / 255) * 100;
         g1 = gammaDecode (g / 255) * 100;
         b1 = gammaDecode (b / 255) * 100;
         x = (r1 * 0.4124 + g1 * 0.3576 + b1 * 0.1805) / 95.047;
         y = (r1 * 0.2126 + g1 * 0.7152 + b1 * 0.0722) / 100.0;
         z = (r1 * 0.0193 + g1 * 0.1192 + b1 * 0.9505) / 108.883;
         x1 = labCurve x;
         y1 = labCurve y;
         z1 = labCurve z
     in \<lparr>lab_l = (116 * y1) - 16, lab_a = 500 * (x1 - y1), lab_b = 200 * (y1 - z1)\<rparr>)"

definition labDistance :: "Lab \<Rightarrow> Lab \<Rightarrow> real" where
  "labDistance lab1 lab2 =
    (let dl = lab_l lab1 - lab_l lab2;
         da = lab_a lab1 - lab_a lab2;
         db = lab_b lab1 - lab_b lab2
     in sqrt (0.2 * dl * dl + 3 * da * da + 3 * db * db))"

text \<open>The palette chosen by the first conditional of \<open>findClosestColor\<close>.\<close>

definition selectPalette :: "DitherMode \<Rightarrow> ColorPaletteItem list" where
  "selectPalette mode =
    (if mode = FourColor then fourColorPalette
     else if mode = ThreeColor then threeColorPalette
     else rgbPalette)"

text \<open>
  One iteration of the search loop. The running minimum starts at \<open>Infinity\<close>, which is
  \<open>None\<close> here: every distance is below it.
\<close>

definition closestStep ::
  "Lab \<Rightarrow> ColorPaletteItem \<Rightarrow> real option \<times> ColorPaletteItem \<Rightarrow> real option \<times> ColorPaletteItem"
where
  "closestStep inputLab color st =
    (let colorLab = rgbToLab (real (item_r color)) (real (item_g color)) (real (item_b color));
         distance = labDistance inputLab colorLab
     in if (case fst st of None \<Rightarrow> True | Some minDistance \<Rightarrow> distance < minDistance)
        then (Some distance, color)
        else st)"

text \<open>
  Double-precision arithmetic. A double is \<open>m * 2 ^ (e - 52)\<close> with an integer \<open>m\<close> of at
  most 53 bits; the binary exponent \<open>e\<close> of a number is \<open>exponentOf\<close>, at least \<open>-1022\<close>
  (below that the spacing of the subnormal numbers stays the same). \<open>roundDouble\<close> is
  rounding to nearest, a tie going to the even significand. Overflow to \<open>Infinity\<close> is
  not modelled: the numbers rounded here come from colour samples between 0 and 255.
\<close>

definition exponentOf :: "real \<Rightarrow> int" where
  "exponentOf x = \<lfloor>log 2 \<bar>x\<bar>\<rfloor>"

definition roundHalfEven :: "real \<Rightarrow> int" where
  "roundHalfEven v =
    (let f = \<lfloor>v\<rfloor>
     in if real_of_int f + 0.5 < v then f + 1
        else if v < real_of_int f + 0.5 then f
        else if even f then f else f + 1)"

definition roundDouble :: "real \<Rightarrow> real" where
  "roundDouble x =
    (if x = 0 then 0
     else (let e = max (exponentOf x) (- 1022);
               ulp = 2 powr real_of_int (e - 52)
           in real_of_int (roundHalfEven (x / ulp)) * ulp))"

text \<open>
  The expression \<open>0.299 * r + 0.587 * g + 0.114 * b\<close> on doubles \<open>r\<close>, \<open>g\<close>, \<open>b\<close>: the three
  literals are rounded when the source is read, then each product and, from left to
  right, each sum.
\<close>

definition luminance :: "real \<Rightarrow> real \<Rightarrow> real \<Rightarrow> real" where
  "luminance r g b =
    roundDouble (roundDouble (roundDouble (roundDouble 0.299 * r) + roundDouble (roundDouble 0.587 * g))
                 + roundDouble (roundDouble 0.114 * b))"

definition findClosestColor :: "real \<Rightarrow> real \<Rightarrow> real \<Rightarrow> DitherMode \<Rightarrow> ColorPaletteItem" where
  "findClosestColor r g b mode =
    (let palette = selectPalette mode
     in if mode \<noteq> FourColor \<and> mode \<noteq> ThreeColor \<and> r < 50 \<and> g < 150 \<and> b > 100
        then rgbPalette ! 2
        else if mode = ThreeColor
        then (if r > 120 \<and> r > roundDouble (g * 1.5) \<and> r > roundDouble (b * 1.5)
              then threeColorPalette ! 2
              else (let luminance = luminance r g b
                    in if luminance < 128 then threeColorPalette ! 0 else threeColorPalette ! 1))
        else (let inputLab = rgbToLab r g b
              in snd (fold (closestStep inputLab) palette (None, palette ! 0))))"

text \<open>
  The palettes as the specification names them, by colour name: two-colour is
  black/white, three-colour adds red, four-colour adds yellow, six-colour adds blue and
  green. The source declares no two-colour palette.
\<close>

definition spec_palette_names :: "DitherMode \<Rightarrow> string set" where
  "spec_palette_names mode =
    (case mode of
       BlackWhiteColor \<Rightarrow> {''black'', ''white''}
     | ThreeColor \<Rightarrow> {''black'', ''white'', ''red''}
     | FourColor \<Rightarrow> {''black'', ''white'', ''red'', ''yellow''}
     | SixColor \<Rightarrow> {''black'', ''white'', ''red'', ''yellow'', ''blue'', ''green''})"

text \<open>The distance of an input colour to a palette entry, as the search loop computes it.\<close>

definition entryDistance :: "real \<Rightarrow> real \<Rightarrow> real \<Rightarrow> ColorPaletteItem \<Rightarrow> real" where
  "entryDistance r g b color =
    labDistance (rgbToLab r g b)
      (rgbToLab (real (item_r color)) (real (item_g color)) (real (item_b color)))"

text \<open>
  Position \<open>i\<close> holds the first entry of minimal distance: no entry is closer, and every
  entry declared before it is strictly farther.
\<close>

definition firstMinimal :: "(ColorPaletteItem \<Rightarrow> real) \<Rightarrow> ColorPaletteItem list \<Rightarrow> nat \<Rightarrow> bool" where
  "firstMinimal d ps i \<longleftrightarrow>
    i < length ps \<and> (\<forall>j < length ps. d (ps ! i) \<le> d (ps ! j)) \<and> (\<forall>j < i. d (ps ! i) < d (ps ! j))"

section \<open>Contrast and dithering (dithering.ts)\<close>

text \<open>
  A store into a \<open>Uint8ClampedArray\<close>: values at or below 0 become 0, values at or above
  255 become 255, anything else is rounded to the nearest integer, a tie going to the
  even neighbour.
\<close>

definition toUint8Clamp :: "real \<Rightarrow> nat" where
  "toUint8Clamp v =
    (if v \<le> 0 then 0
     else if v \<ge> 255 then 255
     else (let f = \<lfloor>v\<rfloor>
           in if real_of_int f + 0.5 < v then nat (f + 1)
              else if v < real_of_int f + 0.5 then nat f
              else if even f then nat f else nat (f + 1)))"

text \<open>
  The body of the loop of \<open>adjustContrast\<close> at offset \<open>i\<close>. A store past the end of a typed
  array is dropped, which is what list update does.
\<close>

definition contrastStep :: "real \<Rightarrow> nat \<Rightarrow> nat list \<Rightarrow> nat list" where
  "contrastStep factor i d =
    (let d1 = d[i := toUint8Clamp (min 255 (max 0 ((real (d ! i) - 128) * factor + 128)))];
         d2 = d1[i + 1 := toUint8Clamp (min 255 (max 0 ((real (d1 ! (i + 1)) - 128) * factor + 128)))];
         d3 = d2[i + 2 := toUint8Clamp (min 255 (max 0 ((real (d2 ! (i + 2)) - 128) * factor + 128)))]
     in d3)"

definition adjustContrast :: "ImageData \<Rightarrow> real \<Rightarrow> ImageData" where
  "adjustContrast imageData factor =
    imageData\<lparr>data :=
      fold (contrastStep factor) (map (\<lambda>k. 4 * k) [0..<(length (data imageData) + 3) div 4])
        (data imageData)\<rparr>"

text \<open>
  The nested loops \<open>for y < height\<close>, \<open>for x < width\<close>: the pairs \<open>(y, x)\<close> in the order the
  source visits them.
\<close>

definition raster :: "nat \<Rightarrow> nat \<Rightarrow> (nat \<times> nat) list" where
  "raster w h = List.product [0..<h] [0..<w]"

text \<open>
  \<open>t[k] = Math.min(255, Math.max(0, t[k] + e))\<close> on the scratch buffer, and the three such
  stores (red, green, blue) the source makes at a neighbour \<open>k\<close>. The source writes
  \<open>err * n / divisor\<close>; the weight \<open>wgt\<close> is \<open>n / divisor\<close>.
\<close>

definition addError :: "nat list \<Rightarrow> nat \<Rightarrow> real \<Rightarrow> nat list" where
  "addError t k e = t[k := toUint8Clamp (min 255 (max 0 (real (t ! k) + e)))]"

definition diffuse :: "nat list \<Rightarrow> nat \<Rightarrow> real \<times> real \<times> real \<Rightarrow> real \<Rightarrow> nat list" where
  "diffuse t k err wgt =
    (case err of (errR, errG, errB) \<Rightarrow>
       addError (addError (addError t k (errR * wgt)) (k + 1) (errG * wgt)) (k + 2) (errB * wgt))"

text \<open>The closest palette entry of the pixel at \<open>idx\<close> and its error scaled by the strength.\<close>

definition closestAt :: "nat list \<Rightarrow> nat \<Rightarrow> DitherMode \<Rightarrow> ColorPaletteItem" where
  "closestAt t idx mode =
    findClosestColor (real (t ! idx)) (real (t ! (idx + 1))) (real (t ! (idx + 2))) mode"

definition scaledError :: "nat list \<Rightarrow> nat \<Rightarrow> ColorPaletteItem \<Rightarrow> real \<Rightarrow> real \<times> real \<times> real" where
  "scaledError t idx closest strength =
    ((real (t ! idx) - real (item_r closest)) * strength,
     (real (t ! (idx + 1)) - real (item_g closest)) * strength,
     (real (t ! (idx + 2)) - real (item_b closest)) * strength)"

text \<open>
  \<open>data[idx] = closest.r; data[idx + 1] = closest.g; data[idx + 2] = closest.b\<close>. The
  palette channels are integers between 0 and 255, which the clamped store keeps.
\<close>

definition setRGB :: "nat list \<Rightarrow> nat \<Rightarrow> ColorPaletteItem \<Rightarrow> nat list" where
  "setRGB d idx closest =
    d[idx := item_r closest, idx + 1 := item_g closest, idx + 2 := item_b closest]"

text \<open>The second pass of the two-pass algorithms: quantise the scratch buffer into the image.\<close>

definition requantize :: "nat \<Rightarrow> DitherMode \<Rightarrow> nat list \<Rightarrow> nat \<times> nat \<Rightarrow> nat list \<Rightarrow> nat list" where
  "requantize w mode tempData p d =
    (case p of (y, x) \<Rightarrow>
       (let idx = (y * w + x) * 4
        in setRGB d idx (closestAt tempData idx mode)))"

definition fsDiffuse ::
  "nat \<Rightarrow> nat \<Rightarrow> real \<Rightarrow> DitherMode \<Rightarrow> nat \<times> nat \<Rightarrow> nat list \<Rightarrow> nat list" where
  "fsDiffuse w h strength mode p t =
    (case p of (y, x) \<Rightarrow>
       (let idx = (y * w + x) * 4;
            closest = closestAt t idx mode;
            err = scaledError t idx closest strength;
            t1 = (if x + 1 < w then diffuse t (idx + 4) err (7 / 16) else t);
            t2 = (if y + 1 < h
                  then (let ta = (if x > 0 then diffuse t1 (idx + w * 4 - 4) err (3 / 16) else t1);
                            tb = diffuse ta (idx + w * 4) err (5 / 16);
                            tc = (if x + 1 < w then diffuse tb (idx + w * 4 + 4) err (1 / 16) else tb)
                        in tc)
                  else t1)
        in t2))"

definition floydSteinbergDither :: "ImageData \<Rightarrow> real \<Rightarrow> DitherMode \<Rightarrow> ImageData" where
  "floydSteinbergDither imageData strength mode =
    (let w = width imageData;
         h = height imageData;
         tempData = fold (fsDiffuse w h strength mode) (raster w h) (data imageData)
     in imageData\<lparr>data := fold (requantize w mode tempData) (raster w h) (data imageData)\<rparr>)"

text \<open>Atkinson writes the quantised colour at once; the state is \<open>(data, tempData)\<close>.\<close>

definition atkinsonStep ::
  "nat \<Rightarrow> nat \<Rightarrow> real \<Rightarrow> DitherMode \<Rightarrow> nat \<times> nat \<Rightarrow> nat list \<times> nat list \<Rightarrow> nat list \<times> nat list"
where
  "atkinsonStep w h strength mode p st =
    (case p of (y, x) \<Rightarrow> case st of (d, t) \<Rightarrow>
       (let idx = (y * w + x) * 4;
            closest = closestAt t idx mode;
            d' = setRGB d idx closest;
            err = scaledError t idx closest strength;
            fraction = 1 / 8;
            t1 = (if x + 1 < w then diffuse t (idx + 4) err fraction else t);
            t2 = (if x + 2 < w then diffuse t1 (idx + 8) err fraction else t1);
            t3 = (if y + 1 < h
                  then (let ta = (if x > 0 then diffuse t2 (idx + w * 4 - 4) err fraction else t2);
                            tb = diffuse ta (idx + w * 4) err fraction;
                            tc = (if x + 1 < w then diffuse tb (idx + w * 4 + 4) err fraction else tb)
                        in tc)
                  else t2);
            t4 = (if y + 2 < h then diffuse t3 (idx + w * 8) err fraction else t3)
        in (d', t4)))"

definition atkinsonDither :: "ImageData \<Rightarrow> real \<Rightarrow> DitherMode \<Rightarrow> ImageData" where
  "atkinsonDither imageData strength mode =
    (let w = width imageData;
         h = height imageData
     in imageData\<lparr>data :=
          fst (fold (atkinsonStep w h strength mode) (raster w h) (data imageData, data imageData))\<rparr>)"

text \<open>
  The twelve guarded neighbour updates that \<open>stuckiDither\<close> and \<open>jarvisDither\<close> both spell
  out, in the order of the source; \<open>ws\<close> lists the twelve numerators in that order.
\<close>

definition spread12 ::
  "nat \<Rightarrow> nat \<Rightarrow> nat \<Rightarrow> nat \<Rightarrow> nat \<Rightarrow> real \<times> real \<times> real \<Rightarrow> real list \<Rightarrow> real \<Rightarrow> nat list \<Rightarrow> nat list"
where
  "spread12 w h x y idx err ws divisor t =
    (let t1 = (if x + 1 < w then diffuse t (idx + 4) err (ws ! 0 / divisor) else t);
         t2 = (if x + 2 < w then diffuse t1 (idx + 8) err (ws ! 1 / divisor) else t1);
         t3 = (if y + 1 < h
               then (let ta = (if x > 1 then diffuse t2 (idx + w * 4 - 8) err (ws ! 2 / divisor) else t2);
                         tb = (if x > 0 then diffuse ta (idx + w * 4 - 4) err (ws ! 3 / divisor) else ta);
                         tc = diffuse tb (idx + w * 4) err (ws ! 4 / divisor);
                         td = (if x + 1 < w then diffuse tc (idx + w * 4 + 4) err (ws ! 5 / divisor) else tc);
                         te = (if x + 2 < w then diffuse td (idx + w * 4 + 8) err (ws ! 6 / divisor) else td)
                     in te)
               else t2);
         t4 = (if y + 2 < h
               then (let ta = (if x > 1 then diffuse t3 (idx + w * 8 - 8) err (ws ! 7 / divisor) else t3);
                         tb = (if x > 0 then diffuse ta (idx + w * 8 - 4) err (ws ! 8 / divisor) else ta);
                         tc = diffuse tb (idx + w * 8) err (ws ! 9 / divisor);
                         td = (if x + 1 < w then diffuse tc (idx + w * 8 + 4) err (ws ! 10 / divisor) else tc);
                         te = (if x + 2 < w then diffuse td (idx + w * 8 + 8) err (ws ! 11 / divisor) else td)
                     in te)
               else t3)
     in t4)"

definition stuckiDiffuse ::
  "nat \<Rightarrow> nat \<Rightarrow> real \<Rightarrow> DitherMode \<Rightarrow> nat \<times> nat \<Rightarrow> nat list \<Rightarrow> nat list" where
  "stuckiDiffuse w h strength mode p t =
    (case p of (y, x) \<Rightarrow>
       (let idx = (y * w + x) * 4;
            closest = closestAt t idx mode;
            err = scaledError t idx closest strength;
            divisor = 42
        in spread12 w h x y idx err [8, 4, 2, 4, 8, 4, 2, 1, 2, 4, 2, 1] divisor t))"

definition stuckiDither :: "ImageData \<Rightarrow> real \<Rightarrow> DitherMode \<Rightarrow> ImageData" where
  "stuckiDither imageData strength mode =
    (let w = width imageData;
         h = height imageData;
         tempData = fold (stuckiDiffuse w h strength mode) (raster w h) (data imageData)
     in imageData\<lparr>data := fold (requantize w mode tempData) (raster w h) (data imageData)\<rparr>)"

definition jarvisStep ::
  "nat \<Rightarrow> nat \<Rightarrow> real \<Rightarrow> DitherMode \<Rightarrow> nat \<times> nat \<Rightarrow> nat list \<times> nat list \<Rightarrow> nat list \<times> nat list"
where
  "jarvisStep w h strength mode p st =
    (case p of (y, x) \<Rightarrow> case st of (d, t) \<Rightarrow>
       (let idx = (y * w + x) * 4;
            closest = closestAt t idx mode;
            d' = setRGB d idx closest;
            err = scaledError t idx closest strength;
            divisor = 48
        in (d', spread12 w h x y idx err [7, 5, 3, 5, 7, 5, 3, 1, 3, 5, 3, 1] divisor t)))"

definition jarvisDither :: "ImageData \<Rightarrow> real \<Rightarrow> DitherMode \<Rightarrow> ImageData" where
  "jarvisDither imageData strength mode =
    (let w = width imageData;
         h = height imageData
     in imageData\<lparr>data :=
          fst (fold (jarvisStep w h strength mode) (raster w h) (data imageData, data imageData))\<rparr>)"

definition bayerMatrix :: "nat list list" where
  "bayerMatrix =
    [[0, 32, 8, 40, 2, 34, 10, 42],
     [48, 16, 56, 24, 50, 18, 58, 26],
     [12, 44, 4, 36, 14, 46, 6, 38],
     [60, 28, 52, 20, 62, 30, 54, 22],
     [3, 35, 11, 43, 1, 33, 9, 41],
     [51, 19, 59, 27, 49, 17, 57, 25],
     [15, 47, 7, 39, 13, 45, 5, 37],
     [63, 31, 55, 23, 61, 29, 53, 21]]"

definition bayerStep :: "nat \<Rightarrow> real \<Rightarrow> DitherMode \<Rightarrow> nat \<times> nat \<Rightarrow> nat list \<Rightarrow> nat list" where
  "bayerStep w strength mode p d =
    (case p of (y, x) \<Rightarrow>
       (let matrixSize = 8;
            maxThreshold = 64;
            idx = (y * w + x) * 4;
            r = real (d ! idx);
            g = real (d ! (idx + 1));
            b = real (d ! (idx + 2));
            matrixX = x mod matrixSize;
            matrixY = y mod matrixSize;
            threshold = (real (bayerMatrix ! matrixY ! matrixX) / maxThreshold) * 255;
            adjustedR = r + (threshold - 127.5) * strength;
            adjustedG = g + (threshold - 127.5) * strength;
            adjustedB = b + (threshold - 127.5) * strength;
            clampedR = min 255 (max 0 adjustedR);
            clampedG = min 255 (max 0 adjustedG);
            clampedB = min 255 (max 0 adjustedB);
            closest = findClosestColor clampedR clampedG clampedB mode
        in setRGB d idx closest))"

definition bayerDither :: "ImageData \<Rightarrow> real \<Rightarrow> DitherMode \<Rightarrow> ImageData" where
  "bayerDither imageData strength mode =
    (let w = width imageData;
         h = height imageData
     in imageData\<lparr>data := fold (bayerStep w strength mode) (raster w h) (data imageData)\<rparr>)"

definition ditherImage :: "ImageData \<Rightarrow> DitherAlgorithm \<Rightarrow> real \<Rightarrow> DitherMode \<Rightarrow> ImageData" where
  "ditherImage imageData alg strength mode =
    (case alg of
       FloydSteinberg \<Rightarrow> floydSteinbergDither imageData strength mode
     | Atkinson \<Rightarrow> atkinsonDither imageData strength mode
     | Stucki \<Rightarrow> stuckiDither imageData strength mode
     | Jarvis \<Rightarrow> jarvisDither imageData strength mode
     | Bayer \<Rightarrow> bayerDither imageData strength mode
     | NoDither \<Rightarrow> imageData)"

section \<open>Packing and decoding (dithering.ts)\<close>

text \<open>
  \<open>Math.round\<close>: the nearest integer, a tie going up. \<open>grayscaleAt\<close> is
  \<open>Math.round(0.299 * r + 0.587 * g + 0.114 * b)\<close> on the samples at \<open>index\<close>, the sum
  computed in double precision.
\<close>

definition jsRound :: "real \<Rightarrow> int" where
  "jsRound v = \<lfloor>v + 0.5\<rfloor>"

definition grayscaleAt :: "nat list \<Rightarrow> nat \<Rightarrow> int" where
  "grayscaleAt d index =
    jsRound (luminance (real (d ! index)) (real (d ! (index + 1))) (real (d ! (index + 2))))"

text \<open>\<open>a[i] |= v\<close> and \<open>a[i] &= ~v\<close> on a \<open>Uint8Array\<close>.\<close>

definition orByte :: "8 word list \<Rightarrow> nat \<Rightarrow> 8 word \<Rightarrow> 8 word list" where
  "orByte a i v = a[i := (a ! i) OR v]"

definition clearBits :: "8 word list \<Rightarrow> nat \<Rightarrow> 8 word \<Rightarrow> 8 word list" where
  "clearBits a i v = a[i := (a ! i) AND NOT v]"

definition packSixColor :: "nat \<Rightarrow> nat \<Rightarrow> nat list \<Rightarrow> DitherMode \<Rightarrow> nat \<times> nat \<Rightarrow> 8 word list \<Rightarrow> 8 word list" where
  "packSixColor w h d mode p processedData =
    (case p of (y, x) \<Rightarrow>
       (let index = (y * w + x) * 4;
            closest = closestAt d index mode;
            newIndex = (x * h) + (h - 1 - y)
        in processedData[newIndex := item_value closest]))"

definition packFourColor :: "nat \<Rightarrow> nat list \<Rightarrow> DitherMode \<Rightarrow> nat \<times> nat \<Rightarrow> 8 word list \<Rightarrow> 8 word list" where
  "packFourColor w d mode p processedData =
    (case p of (y, x) \<Rightarrow>
       (let index = (y * w + x) * 4;
            closest = closestAt d index mode;
            colorValue = item_value closest;
            newIndex = (y * w + x) div 4;
            shift = 6 - ((x mod 4) * 2)
        in orByte processedData newIndex (push_bit shift colorValue)))"

definition packBlackWhite :: "nat \<Rightarrow> nat list \<Rightarrow> nat \<times> nat \<Rightarrow> 8 word list \<Rightarrow> 8 word list" where
  "packBlackWhite w d p processedData =
    (case p of (y, x) \<Rightarrow>
       (let byteWidth = nat \<lceil>real w / 8\<rceil>;
            threshold = 140;
            index = (y * w + x) * 4;
            grayscale = grayscaleAt d index;
            bit = (if grayscale \<ge> threshold then 1 else 0);
            byteIndex = y * byteWidth + x div 8;
            bitIndex = 7 - (x mod 8)
        in orByte processedData byteIndex (push_bit bitIndex bit)))"

text \<open>Three-colour mode fills two planes; the state is \<open>(blackWhiteData, redWhiteData)\<close>.\<close>

definition packThreeColor ::
  "nat \<Rightarrow> nat list \<Rightarrow> nat \<times> nat \<Rightarrow> 8 word list \<times> 8 word list \<Rightarrow> 8 word list \<times> 8 word list" where
  "packThreeColor w d p st =
    (case p of (y, x) \<Rightarrow> case st of (blackWhiteData, redWhiteData) \<Rightarrow>
       (let byteWidth = nat \<lceil>real w / 8\<rceil>;
            blackWhiteThreshold = 140;
            redThreshold = 160;
            index = (y * w + x) * 4;
            r = d ! index;
            g = d ! (index + 1);
            b = d ! (index + 2);
            grayscale = grayscaleAt d index;
            blackWhiteBit = (grayscale \<ge> blackWhiteThreshold);
            blackWhiteByteIndex = y * byteWidth + x div 8;
            blackWhiteBitIndex = 7 - (x mod 8);
            blackWhiteData' =
              (if blackWhiteBit
               then orByte blackWhiteData blackWhiteByteIndex (push_bit blackWhiteBitIndex 1)
               else clearBits blackWhiteData blackWhiteByteIndex (push_bit blackWhiteBitIndex 1));
            redWhiteBit = (\<not> (r > redThreshold \<and> r > g \<and> r > b));
            redWhiteByteIndex = y * byteWidth + x div 8;
            redWhiteBitIndex = 7 - (x mod 8);
            redWhiteData' =
              (if redWhiteBit
               then orByte redWhiteData redWhiteByteIndex (push_bit redWhiteBitIndex 1)
               else clearBits redWhiteData redWhiteByteIndex (push_bit redWhiteBitIndex 1))
        in (blackWhiteData', redWhiteData')))"

definition processImageData :: "ImageData \<Rightarrow> DitherMode \<Rightarrow> 8 word list" where
  "processImageData imageData mode =
    (let w = width imageData;
         h = height imageData;
         d = data imageData
     in if mode = SixColor
        then fold (packSixColor w h d mode) (raster w h) (replicate (w * h) 0)
        else if mode = FourColor
        then fold (packFourColor w d mode) (raster w h) (replicate (nat \<lceil>real (w * h) / 4\<rceil>) 0)
        else if mode = BlackWhiteColor
        then fold (packBlackWhite w d) (raster w h) (replicate (nat \<lceil>real w / 8\<rceil> * h) 0)
        else if mode = ThreeColor
        then (let byteWidth = nat \<lceil>real w / 8\<rceil>;
                  planes = fold (packThreeColor w d) (raster w h)
                             (replicate (h * byteWidth) 0, replicate (h * byteWidth) 0)
              in fst planes @ snd planes)
        else [])"

text \<open>
  Reading a \<open>Uint8Array\<close>: past the end the read gives \<open>undefined\<close>, here \<open>None\<close>.
  \<open>(a[i] >> s) & m\<close> turns \<open>undefined\<close> into 0.
\<close>

definition byteAt :: "8 word list \<Rightarrow> nat \<Rightarrow> 8 word option" where
  "byteAt a i = (if i < length a then Some (a ! i) else None)"

definition shiftMask :: "8 word list \<Rightarrow> nat \<Rightarrow> nat \<Rightarrow> 8 word \<Rightarrow> 8 word" where
  "shiftMask a i s m = (case byteAt a i of None \<Rightarrow> 0 | Some v \<Rightarrow> drop_bit s v AND m)"

definition setRGBA :: "nat list \<Rightarrow> nat \<Rightarrow> nat \<Rightarrow> nat \<Rightarrow> nat \<Rightarrow> nat \<Rightarrow> nat list" where
  "setRGBA d index r g b a = d[index := r, index + 1 := g, index + 2 := b, index + 3 := a]"

definition decodeSixColor :: "nat \<Rightarrow> nat \<Rightarrow> 8 word list \<Rightarrow> nat \<times> nat \<Rightarrow> nat list \<Rightarrow> nat list" where
  "decodeSixColor w h processedData p d =
    (case p of (y, x) \<Rightarrow>
       (let newIndex = (x * h) + (h - 1 - y);
            v = byteAt processedData newIndex;
            color = (case find (\<lambda>c. Some (item_value c) = v) rgbPalette of
                       Some c \<Rightarrow> c | None \<Rightarrow> rgbPalette ! 5);
            index = (y * w + x) * 4
        in setRGBA d index (item_r color) (item_g color) (item_b color) 255))"

text \<open>The table \<open>fourColorValues\<close> local to the decoder: \<open>(value, r, g, b)\<close>.\<close>

definition fourColorValues :: "(8 word \<times> nat \<times> nat \<times> nat) list" where
  "fourColorValues = [(0x00, 0, 0, 0), (0x01, 255, 255, 255), (0x03, 255, 0, 0), (0x02, 255, 255, 0)]"

definition decodeFourColor :: "nat \<Rightarrow> 8 word list \<Rightarrow> nat \<times> nat \<Rightarrow> nat list \<Rightarrow> nat list" where
  "decodeFourColor w processedData p d =
    (case p of (y, x) \<Rightarrow>
       (let newIndex = (y * w + x) div 4;
            shift = 6 - ((x mod 4) * 2);
            v = shiftMask processedData newIndex shift 0x03;
            color = (case find (\<lambda>c. fst c = v) fourColorValues of
                       Some c \<Rightarrow> c | None \<Rightarrow> fourColorValues ! 1);
            index = (y * w + x) * 4
        in case color of (cv, cr, cg, cb) \<Rightarrow> setRGBA d index cr cg cb 255))"

definition decodeBlackWhite :: "nat \<Rightarrow> 8 word list \<Rightarrow> nat \<times> nat \<Rightarrow> nat list \<Rightarrow> nat list" where
  "decodeBlackWhite w processedData p d =
    (case p of (y, x) \<Rightarrow>
       (let byteWidth = nat \<lceil>real w / 8\<rceil>;
            byteIndex = y * byteWidth + x div 8;
            bitIndex = 7 - (x mod 8);
            bit = shiftMask processedData byteIndex bitIndex 1;
            index = (y * w + x) * 4
        in setRGBA d index (if bit \<noteq> 0 then 255 else 0) (if bit \<noteq> 0 then 255 else 0)
             (if bit \<noteq> 0 then 255 else 0) 255))"

definition decodeThreeColor :: "nat \<Rightarrow> 8 word list \<Rightarrow> 8 word list \<Rightarrow> nat \<times> nat \<Rightarrow> nat list \<Rightarrow> nat list" where
  "decodeThreeColor w blackWhiteData redWhiteData p d =
    (case p of (y, x) \<Rightarrow>
       (let byteWidth = nat \<lceil>real w / 8\<rceil>;
            byteIndex = y * byteWidth + x div 8;
            bitIndex = 7 - (x mod 8);
            blackWhiteBit = shiftMask blackWhiteData byteIndex bitIndex 1;
            redWhiteBit = shiftMask redWhiteData byteIndex bitIndex 1;
            index = (y * w + x) * 4
        in if redWhiteBit = 0
           then setRGBA d index 255 0 0 255
           else setRGBA d index (if blackWhiteBit \<noteq> 0 then 255 else 0)
                  (if blackWhiteBit \<noteq> 0 then 255 else 0) (if blackWhiteBit \<noteq> 0 then 255 else 0) 255))"

text \<open>
  \<open>new ImageData(width, height)\<close> throws when either argument is zero; that is the result
  \<open>None\<close>. Otherwise the buffer starts as \<open>4 * width * height\<close> zeros.
\<close>

definition decodeProcessedData :: "8 word list \<Rightarrow> nat \<Rightarrow> nat \<Rightarrow> DitherMode \<Rightarrow> ImageData option" where
  "decodeProcessedData processedData w h mode =
    (if w = 0 \<or> h = 0 then None
     else (let d0 = replicate (4 * w * h) 0;
               d = (if mode = SixColor
                    then fold (decodeSixColor w h processedData) (raster w h) d0
                    else if mode = FourColor
                    then fold (decodeFourColor w processedData) (raster w h) d0
                    else if mode = BlackWhiteColor
                    then fold (decodeBlackWhite w processedData) (raster w h) d0
                    else if mode = ThreeColor
                    then (let byteWidth = nat \<lceil>real w / 8\<rceil>;
                              blackWhiteData = take (byteWidth * h) processedData;
                              redWhiteData = drop (byteWidth * h) processedData
                          in fold (decodeThreeColor w blackWhiteData redWhiteData) (raster w h) d0)
                    else d0)
           in Some \<lparr>width = w, height = h, data = d\<rparr>))"

section \<open>Transport and device session (bluetooth.ts)\<close>

definition EpdCmd_INIT :: "8 word" where "EpdCmd_INIT = 0x01"
definition EpdCmd_REFRESH :: "8 word" where "EpdCmd_REFRESH = 0x05"
definition EpdCmd_WRITE_IMG :: "8 word" where "EpdCmd_WRITE_IMG = 0x30"

text \<open>
  What the GATT characteristic does with a call of \<open>writeValueWithResponse\<close> or
  \<open>writeValueWithoutResponse\<close>: the promise resolves, it rejects with an error while the
  connection stays up, or it rejects because the device has gone (\<open>gattServer.connected\<close>
  is false afterwards).
\<close>

datatype linkEvent = Delivered | Failed | Disconnects

text \<open>One call of \<open>writeValue...\<close>: its kind, the bytes handed over, and whether it resolved.\<close>

record wireWrite =
  ww_withResponse :: bool
  ww_payload :: "8 word list"
  ww_ok :: bool

text \<open>
  The module-level connection state, \<open>epdCharacteristic\<close> and \<open>gattServer\<close>, with the
  behaviour of the link for the coming calls (\<open>Delivered\<close> once the list is used up) and
  the calls made so far, oldest first. Logging, status text and progress callbacks are
  left out.
\<close>

record session =
  hasCharacteristic :: bool
  serverConnected :: bool
  link :: "linkEvent list"
  wire :: "wireWrite list"

text \<open>
  \<open>write(cmd, data, withResponse)\<close>, named \<open>write_ble\<close> here; a call without \<open>data\<close>
  has \<open>dat = []\<close>.
\<close>

definition write_ble :: "8 word \<Rightarrow> 8 word list \<Rightarrow> bool \<Rightarrow> session \<Rightarrow> bool \<times> session" where
  "write_ble cmd dat withResponse s =
    (if \<not> hasCharacteristic s then (False, s)
     else if \<not> serverConnected s then (False, s)
     else (let payload = cmd # dat;
               ev = (case link s of [] \<Rightarrow> Delivered | e # _ \<Rightarrow> e);
               s1 = s\<lparr>link := tl (link s),
                      wire := wire s @ [\<lparr>ww_withResponse = withResponse, ww_payload = payload,
                                         ww_ok = (ev = Delivered)\<rparr>]\<rparr>
           in case ev of
                Delivered \<Rightarrow> (True, s1)
              | Failed \<Rightarrow> (False, s1)
              | Disconnects \<Rightarrow> (False, s1\<lparr>serverConnected := False\<rparr>)))"

text \<open>\<open>Array.prototype.slice(a, b)\<close> on integers: a negative bound counts from the end.\<close>

definition jsSlice :: "'a list \<Rightarrow> int \<Rightarrow> int \<Rightarrow> 'a list" where
  "jsSlice xs a b =
    (let n = int (length xs);
         k = (if a < 0 then max (n + a) 0 else min a n);
         e = (if b < 0 then max (n + b) 0 else min b n)
     in take (nat (e - k)) (drop (nat k) xs))"

text \<open>
  The loop of \<open>writeImage\<close>, with the loop variables \<open>i\<close> and \<open>noReplyCount\<close>. The result of
  each \<open>write\<close> is dropped, as in the source. With a chunk size of zero or less the loop
  never ends on a non-empty payload: the result is \<open>None\<close>.
\<close>

partial_function (option) writeImageLoop ::
  "8 word list \<Rightarrow> string \<Rightarrow> int \<Rightarrow> int \<Rightarrow> int \<Rightarrow> int \<Rightarrow> session \<Rightarrow> session option" where
  "writeImageLoop dat step chunkSize interleavedCount i noReplyCount s =
    (if i < int (length dat)
     then (let payload = ((if step = ''bw'' then 0x0F else 0x00) OR (if i = 0 then 0x00 else 0xF0))
                           # jsSlice dat i (i + chunkSize)
           in if noReplyCount > 0
              then writeImageLoop dat step chunkSize interleavedCount (i + chunkSize)
                     (noReplyCount - 1) (snd (write_ble EpdCmd_WRITE_IMG payload False s))
              else writeImageLoop dat step chunkSize interleavedCount (i + chunkSize)
                     interleavedCount (snd (write_ble EpdCmd_WRITE_IMG payload True s)))
     else Some s)"

text \<open>
  \<open>writeImage(data, step)\<close>; \<open>mtusize\<close> and \<open>interleavedcount\<close> are the parsed values of the
  two form fields.
\<close>

definition writeImage :: "8 word list \<Rightarrow> string \<Rightarrow> int \<Rightarrow> int \<Rightarrow> session \<Rightarrow> session option" where
  "writeImage dat step mtusize interleavedcount s =
    (let chunkSize = mtusize - 2;
         interleavedCount = interleavedcount
     in writeImageLoop dat step chunkSize interleavedCount 0 interleavedCount s)"

text \<open>\<open>convertUC8159\<close>: each pair of input bytes gives four output bytes, two pixels each.\<close>

definition uc8159Pixel :: "8 word \<Rightarrow> 8 word \<Rightarrow> 8 word" where
  "uc8159Pixel black_data color_data =
    (if color_data AND 0x80 = 0x00 then 0x04
     else if black_data AND 0x80 = 0x00 then 0x00
     else 0x03)"

fun uc8159Bytes :: "nat \<Rightarrow> 8 word \<Rightarrow> 8 word \<Rightarrow> 8 word list" where
  "uc8159Bytes 0 black_data color_data = []"
| "uc8159Bytes (Suc n) black_data color_data =
    (let d1 = push_bit 4 (uc8159Pixel black_data color_data);
         black1 = push_bit 1 black_data;
         color1 = push_bit 1 color_data;
         d2 = d1 OR uc8159Pixel black1 color1;
         black2 = push_bit 1 black1;
         color2 = push_bit 1 color1
     in d2 # uc8159Bytes n black2 color2)"

definition convertUC8159 :: "8 word list \<Rightarrow> 8 word list \<Rightarrow> 8 word list" where
  "convertUC8159 blackWhiteData redWhiteData =
    concat (map (\<lambda>i. uc8159Bytes 4 (blackWhiteData ! i)
                        (case byteAt redWhiteData i of None \<Rightarrow> 0 | Some v \<Rightarrow> v))
                [0..<length blackWhiteData])"

text \<open>
  The driver select box \<open>document.getElementById('epddriver')\<close>: the element is absent, or
  it has no selected option (\<open>options[selectedIndex]\<close> is \<open>undefined\<close>, as after its value
  was set to one that no option carries), or an option is selected and the box has
  that option's value.
\<close>

datatype driverSelect = SelectAbsent | NoSelectedOption | Selected string

text \<open>
  How a call of \<open>sendimg\<close> ends: it returns a boolean, or an exception leaves it (its
  promise is rejected).
\<close>

datatype sendResult = Returned bool | Thrown

text \<open>
  What \<open>sendimg\<close> reads besides the connection: the colour mode of the canvas state, the
  driver select box, whether the canvas gives a 2d context, the image of the canvas (its
  width and height are those of the canvas), and the two form fields.
\<close>

record sendInput =
  colorPalette :: DitherMode
  epddriver :: driverSelect
  hasContext :: bool
  canvasImage :: ImageData
  mtusize :: int
  interleavedcount :: int

text \<open>The tail of \<open>sendimg\<close> after the image data: the REFRESH command decides the result.\<close>

definition sendRefresh :: "session \<Rightarrow> (sendResult \<times> session) option" where
  "sendRefresh s = (case write_ble EpdCmd_REFRESH [] True s of (ok, s') \<Rightarrow> Some (Returned ok, s'))"

text \<open>
  \<open>sendimg\<close>: the result is how the call ends and the connection state afterwards, or
  \<open>None\<close> when a \<open>writeImage\<close> loop does not end. Before the \<open>try\<close> block,
  \<open>selectedOption.getAttribute\<close> throws a \<open>TypeError\<close> when the select box has no selected
  option, and nothing catches it. Inside the \<open>try\<close> block \<open>getImageData\<close> throws when the
  canvas has width or height zero; this and every \<open>throw\<close> of the block are caught and
  give \<open>false\<close>.
\<close>

definition sendimg :: "sendInput \<Rightarrow> session \<Rightarrow> (sendResult \<times> session) option" where
  "sendimg inp s =
    (if \<not> serverConnected s \<or> \<not> hasCharacteristic s then Some (Returned False, s)
     else if epddriver inp = NoSelectedOption then Some (Thrown, s)
     else if \<not> hasContext inp then Some (Returned False, s)
     else if width (canvasImage inp) = 0 \<or> height (canvasImage inp) = 0 then Some (Returned False, s)
     else (let ditherMode = colorPalette inp;
               processedData = processImageData (canvasImage inp) ditherMode;
               uc8159 = (epddriver inp = Selected ''08'' \<or> epddriver inp = Selected ''09'')
           in case write_ble EpdCmd_INIT [] True s of
                (False, s1) \<Rightarrow> Some (Returned False, s1)
              | (True, s1) \<Rightarrow>
                  (if ditherMode = FourColor
                   then (case writeImage processedData ''color'' (mtusize inp) (interleavedcount inp) s1 of
                           None \<Rightarrow> None | Some s2 \<Rightarrow> sendRefresh s2)
                   else if ditherMode = ThreeColor
                   then (let halfLength = length processedData div 2;
                             blackWhiteData = take halfLength processedData;
                             redWhiteData = drop halfLength processedData
                         in if uc8159
                            then (case writeImage (convertUC8159 blackWhiteData redWhiteData) ''bw''
                                         (mtusize inp) (interleavedcount inp) s1 of
                                    None \<Rightarrow> None | Some s2 \<Rightarrow> sendRefresh s2)
                            else (case writeImage blackWhiteData ''bw'' (mtusize inp) (interleavedcount inp) s1 of
                                    None \<Rightarrow> None
                                  | Some s2 \<Rightarrow>
                                      (case writeImage redWhiteData ''red'' (mtusize inp) (interleavedcount inp) s2 of
                                         None \<Rightarrow> None | Some s3 \<Rightarrow> sendRefresh s3)))
                   else if ditherMode = BlackWhiteColor
                   then (if uc8159
                         then (let emptyData = replicate (length processedData) 0xFF
                               in case writeImage (convertUC8159 processedData emptyData) ''bw''
                                         (mtusize inp) (interleavedcount inp) s1 of
                                    None \<Rightarrow> None | Some s2 \<Rightarrow> sendRefresh s2)
                         else (case writeImage processedData ''bw'' (mtusize inp) (interleavedcount inp) s1 of
                                 None \<Rightarrow> None | Some s2 \<Rightarrow> sendRefresh s2))
                   else Some (Returned False, s1))))"

text \<open>
  A session that is connected and stays so: the characteristic is there, the server is
  connected, and the link never drops the connection (single writes may still fail).
\<close>

definition staysConnected :: "session \<Rightarrow> bool" where
  "staysConnected s \<longleftrightarrow> hasCharacteristic s \<and> serverConnected s \<and> Disconnects \<notin> set (link s)"

text \<open>How a write went out: with or without response, and its bytes.\<close>

definition sentAs :: "wireWrite \<Rightarrow> bool \<times> 8 word list" where
  "sentAs w = (ww_withResponse w, ww_payload w)"

text \<open>
  The frame of chunk \<open>j\<close> (counted from 0) for chunk size \<open>c\<close>: the command byte, the
  header byte and the bytes \<open>j * c\<close> up to \<open>j * c + c\<close> of the payload.
\<close>

definition chunkHeader :: "string \<Rightarrow> nat \<Rightarrow> 8 word" where
  "chunkHeader step j = (if step = ''bw'' then 0x0F else 0x00) OR (if j = 0 then 0x00 else 0xF0)"

definition chunkFrame :: "8 word list \<Rightarrow> string \<Rightarrow> nat \<Rightarrow> nat \<Rightarrow> 8 word list" where
  "chunkFrame dat step c j = EpdCmd_WRITE_IMG # chunkHeader step j # take c (drop (j * c) dat)"

text \<open>A connected session with a link that delivers every write, and nothing sent yet.\<close>

definition session0 :: session where
  "session0 = \<lparr>hasCharacteristic = True, serverConnected = True, link = [], wire = []\<rparr>"

text \<open>
  The lightness \<open>L\<close> of a colour, and the value \<open>y\<close> of \<open>rgbToLab\<close> before the cube-root
  curve is applied; used to tell the palette colours apart.
\<close>

definition labL :: "real \<Rightarrow> real \<Rightarrow> real \<Rightarrow> real" where
  "labL r g b = lab_l (rgbToLab r g b)"

definition yOf :: "real \<Rightarrow> real \<Rightarrow> real \<Rightarrow> real" where
  "yOf r g b =
    (gammaDecode (r / 255) * 100 * 0.2126 + gammaDecode (g / 255) * 100 * 0.7152
      + gammaDecode (b / 255) * 100 * 0.0722) / 100.0"

section \<open>Round trip of packing and decoding: statement\<close>

text \<open>
  An \<open>ImageData\<close> object has positive width and height and \<open>4 * width * height\<close> samples.
\<close>

definition wellFormed :: "ImageData \<Rightarrow> bool" where
  "wellFormed q \<longleftrightarrow> 0 < width q \<and> 0 < height q \<and> length (data q) = 4 * width q * height q"

definition rgbOf :: "ColorPaletteItem \<Rightarrow> nat \<times> nat \<times> nat" where
  "rgbOf c = (item_r c, item_g c, item_b c)"

text \<open>
  The colours of a palette-quantised image, per mode, as the specification lists them:
  black and white for two-colour mode, the colours of the declared palette otherwise.
\<close>

definition quantizedColors :: "DitherMode \<Rightarrow> (nat \<times> nat \<times> nat) list" where
  "quantizedColors mode =
    (case mode of
       BlackWhiteColor \<Rightarrow> [(0, 0, 0), (255, 255, 255)]
     | ThreeColor \<Rightarrow> map rgbOf threeColorPalette
     | FourColor \<Rightarrow> map rgbOf fourColorPalette
     | SixColor \<Rightarrow> map rgbOf rgbPalette)"

definition pixelAt :: "nat list \<Rightarrow> nat \<Rightarrow> nat \<times> nat \<times> nat" where
  "pixelAt d p = (d ! (p * 4), d ! (p * 4 + 1), d ! (p * 4 + 2))"

definition paletteQuantized :: "ImageData \<Rightarrow> DitherMode \<Rightarrow> bool" where
  "paletteQuantized q mode \<longleftrightarrow>
    (\<forall>p < width q * height q. pixelAt (data q) p \<in> set (quantizedColors mode))"

definition opaque :: "ImageData \<Rightarrow> bool" where
  "opaque q \<longleftrightarrow> (\<forall>p < width q * height q. data q ! (p * 4 + 3) = 255)"

text \<open>
  The two planes of three-colour mode taken one at a time: the bit a pixel contributes
  to the black/white plane and to the red/white plane, and the update of one plane.
\<close>

definition bwBit :: "nat \<Rightarrow> nat list \<Rightarrow> nat \<times> nat \<Rightarrow> bool" where
  "bwBit w d k \<longleftrightarrow> grayscaleAt d ((fst k * w + snd k) * 4) \<ge> 140"

definition redBit :: "nat \<Rightarrow> nat list \<Rightarrow> nat \<times> nat \<Rightarrow> bool" where
  "redBit w d k \<longleftrightarrow>
    \<not> (d ! ((fst k * w + snd k) * 4) > 160
       \<and> d ! ((fst k * w + snd k) * 4) > d ! ((fst k * w + snd k) * 4 + 1)
       \<and> d ! ((fst k * w + snd k) * 4) > d ! ((fst k * w + snd k) * 4 + 2))"

definition planeStep :: "(nat \<times> nat \<Rightarrow> bool) \<Rightarrow> nat \<Rightarrow> nat \<times> nat \<Rightarrow> 8 word list \<Rightarrow> 8 word list" where
  "planeStep b w k a =
    (if b k
     then orByte a (fst k * ((w + 7) div 8) + snd k div 8) (push_bit (7 - snd k mod 8) 1)
     else clearBits a (fst k * ((w + 7) div 8) + snd k div 8) (push_bit (7 - snd k mod 8) 1))"

section \<open>Double-precision arithmetic: proofs\<close>

text \<open>
  Rounding moves a number by at most half a unit in the last place; the luminance of
  samples between 0 and 255 is within \<open>2 ^ -30\<close> of the exact sum; half-integers up to
  512 are doubles; and the luminance of the grey \<open>(128, 128, 128)\<close> is the double just
  below 128.
\<close>

lemma roundHalfEven_close: "\<bar>real_of_int (roundHalfEven v) - v\<bar> \<le> 1 / 2"
proof -
  have "real_of_int \<lfloor>v\<rfloor> \<le> v" "v < real_of_int \<lfloor>v\<rfloor> + 1" by linarith+
  then show ?thesis by (auto simp: roundHalfEven_def Let_def)
qed

lemma roundDouble_zero: "roundDouble 0 = 0"
  by (simp add: roundDouble_def)

lemma exponentOf_eq:
  assumes "2 powr real_of_int e \<le> \<bar>x\<bar>" "\<bar>x\<bar> < 2 powr (real_of_int e + 1)"
  shows "exponentOf x = e"
proof -
  have "0 < (2::real) powr real_of_int e" by simp
  then have pos: "0 < \<bar>x\<bar>" using assms(1) by linarith
  have "real_of_int e \<le> log 2 \<bar>x\<bar>" using assms(1) pos by (simp add: le_log_iff)
  moreover have "log 2 \<bar>x\<bar> < real_of_int e + 1" using assms(2) pos by (simp add: log_less_iff)
  ultimately show ?thesis unfolding exponentOf_def by linarith
qed

lemma roundDouble_binade:
  assumes "2 powr real_of_int e \<le> \<bar>x\<bar>" "\<bar>x\<bar> < 2 powr (real_of_int e + 1)" "- 1022 \<le> e"
  shows "roundDouble x
    = real_of_int (roundHalfEven (x / 2 powr real_of_int (e - 52))) * 2 powr real_of_int (e - 52)"
proof -
  have "0 < (2::real) powr real_of_int e" by simp
  then have "x \<noteq> 0" using assms(1) by auto
  moreover have "max (exponentOf x) (- 1022) = e"
    using exponentOf_eq [OF assms(1,2)] assms(3) by simp
  ultimately show ?thesis by (simp add: roundDouble_def Let_def)
qed

lemma abs_scaled:
  fixes a x u :: real
  assumes "0 < u"
  shows "\<bar>a - x / u\<bar> * u = \<bar>a * u - x\<bar>"
proof -
  have "\<bar>(a - x / u) * u\<bar> = \<bar>a - x / u\<bar> * \<bar>u\<bar>" by (rule abs_mult)
  moreover have "(a - x / u) * u = a * u - x" using assms by (simp add: left_diff_distrib)
  ultimately show ?thesis using assms by simp
qed

lemma roundDouble_close:
  assumes "\<bar>x\<bar> \<le> 512"
  shows "\<bar>roundDouble x - x\<bar> \<le> 1 / 2 ^ 44"
proof (cases "x = 0")
  case True
  then show ?thesis by (simp add: roundDouble_def)
next
  case False
  define e where "e = max (exponentOf x) (- 1022)"
  define ulp where "ulp = 2 powr real_of_int (e - 52)"
  have up: "0 < ulp" by (simp add: ulp_def)
  have "log 2 \<bar>x\<bar> \<le> log 2 512" using assms False by (simp del: log_le_cancel_iff add: log_le_cancel_iff)
  also have "log 2 512 = 9"
  proof -
    have "(512::real) = 2 powr 9" by simp
    then show ?thesis by (simp only: log_powr_cancel)
  qed
  finally have "exponentOf x \<le> 9" unfolding exponentOf_def by linarith
  then have "e \<le> 9" by (simp add: e_def)
  then have "real_of_int (e - 52) \<le> - 43" by simp
  then have "ulp \<le> 2 powr (- 43)" unfolding ulp_def by (intro powr_mono) simp_all
  also have "\<dots> = 1 / 2 ^ 43" by (simp add: powr_minus_divide)
  finally have ub: "ulp \<le> 1 / 2 ^ 43" .
  have rd: "roundDouble x = real_of_int (roundHalfEven (x / ulp)) * ulp"
    using False by (simp add: roundDouble_def Let_def e_def ulp_def)
  have "\<bar>real_of_int (roundHalfEven (x / ulp)) - x / ulp\<bar> \<le> 1 / 2" by (rule roundHalfEven_close)
  then have "\<bar>real_of_int (roundHalfEven (x / ulp)) - x / ulp\<bar> * ulp \<le> 1 / 2 * ulp"
    using up by (intro mult_right_mono) simp_all
  moreover have "\<bar>real_of_int (roundHalfEven (x / ulp)) - x / ulp\<bar> * ulp
      = \<bar>real_of_int (roundHalfEven (x / ulp)) * ulp - x\<bar>"
    by (rule abs_scaled [OF up])
  ultimately have "\<bar>roundDouble x - x\<bar> \<le> ulp / 2" by (simp add: rd)
  with ub show ?thesis by simp
qed


lemma luminance_black: "luminance 0 0 0 = 0"
  by (simp add: luminance_def roundDouble_zero)

lemma coefficient_close:
  assumes "\<bar>c\<bar> \<le> 1" "0 \<le> v" "v \<le> 255"
  shows "\<bar>roundDouble (roundDouble c * v) - c * v\<bar> \<le> 256 * (1 / 2 ^ 44)"
proof -
  define eps :: real where "eps = 1 / 2 ^ 44"
  have eps: "0 \<le> eps" "eps \<le> 1" by (simp_all add: eps_def)
  have c: "\<bar>roundDouble c - c\<bar> \<le> eps"
    unfolding eps_def using assms(1) by (intro roundDouble_close) simp
  have "\<bar>roundDouble c * v - c * v\<bar> = \<bar>roundDouble c - c\<bar> * v"
  proof -
    have "\<bar>(roundDouble c - c) * v\<bar> = \<bar>roundDouble c - c\<bar> * \<bar>v\<bar>" by (rule abs_mult)
    then show ?thesis using assms(2) by (simp add: left_diff_distrib)
  qed
  also have "\<dots> \<le> eps * 255"
    using c assms(2,3) by (intro mult_mono) simp_all
  finally have a: "\<bar>roundDouble c * v - c * v\<bar> \<le> 255 * eps" by simp
  have "\<bar>c * v\<bar> \<le> 1 * 255"
    unfolding abs_mult using assms by (intro mult_mono) simp_all
  with a eps have "\<bar>roundDouble c * v\<bar> \<le> 512" by linarith
  then have "\<bar>roundDouble (roundDouble c * v) - roundDouble c * v\<bar> \<le> eps"
    unfolding eps_def by (rule roundDouble_close)
  with a have "\<bar>roundDouble (roundDouble c * v) - c * v\<bar> \<le> 256 * eps" by linarith
  then show ?thesis by (simp only: eps_def)
qed

lemma luminance_close:
  assumes "0 \<le> r" "r \<le> 255" "0 \<le> g" "g \<le> 255" "0 \<le> b" "b \<le> 255"
  shows "\<bar>luminance r g b - (0.299 * r + 0.587 * g + 0.114 * b)\<bar> \<le> 1 / 2 ^ 30"
proof -
  define eps :: real where "eps = 1 / 2 ^ 44"
  have eps: "0 \<le> eps" "eps \<le> 1 / 1000" by (simp_all add: eps_def)
  define t1 where "t1 = roundDouble (roundDouble 0.299 * r)"
  define t2 where "t2 = roundDouble (roundDouble 0.587 * g)"
  define t3 where "t3 = roundDouble (roundDouble 0.114 * b)"
  have e1: "\<bar>t1 - 0.299 * r\<bar> \<le> 256 * eps"
    unfolding t1_def eps_def using assms by (intro coefficient_close) simp_all
  have e2: "\<bar>t2 - 0.587 * g\<bar> \<le> 256 * eps"
    unfolding t2_def eps_def using assms by (intro coefficient_close) simp_all
  have e3: "\<bar>t3 - 0.114 * b\<bar> \<le> 256 * eps"
    unfolding t3_def eps_def using assms by (intro coefficient_close) simp_all
  have "\<bar>t1 + t2\<bar> \<le> 512" using e1 e2 eps assms by (simp; linarith)
  then have s1: "\<bar>roundDouble (t1 + t2) - (t1 + t2)\<bar> \<le> eps"
    unfolding eps_def by (rule roundDouble_close)
  have "\<bar>roundDouble (t1 + t2) + t3\<bar> \<le> 512" using s1 e1 e2 e3 eps assms by (simp; linarith)
  then have s2: "\<bar>roundDouble (roundDouble (t1 + t2) + t3) - (roundDouble (t1 + t2) + t3)\<bar> \<le> eps"
    unfolding eps_def by (rule roundDouble_close)
  have l: "luminance r g b = roundDouble (roundDouble (t1 + t2) + t3)"
    by (simp add: luminance_def t1_def t2_def t3_def)
  have "\<bar>luminance r g b - (0.299 * r + 0.587 * g + 0.114 * b)\<bar> \<le> 770 * eps"
    unfolding l using s1 s2 e1 e2 e3 by (simp; linarith)
  moreover have "770 * eps \<le> 1 / 2 ^ 30" by (simp add: eps_def)
  ultimately show ?thesis by linarith
qed


lemma roundDouble_eval:
  assumes "2 powr real_of_int e \<le> \<bar>x\<bar>" "\<bar>x\<bar> < 2 powr (real_of_int e + 1)" "- 1022 \<le> e"
    and "x / 2 powr real_of_int (e - 52) = real_of_int m"
  shows "roundDouble x = x"
proof -
  have "roundHalfEven (real_of_int m) = m" by (simp add: roundHalfEven_def)
  then have "roundDouble x = x / 2 powr real_of_int (e - 52) * 2 powr real_of_int (e - 52)"
    using roundDouble_binade [OF assms(1-3)] assms(4) by simp
  then show ?thesis by simp
qed

lemma double_0299: "roundDouble 0.299 = 5386305154335113 / 2 ^ 54"
  using roundDouble_binade [of "- 2" "0.299"]
  by (simp add: powr_minus_divide roundHalfEven_def)


lemma double_0587: "roundDouble 0.587 = 2643612981266481 / 2 ^ 52"
  using roundDouble_binade [of "- 1" "0.587"]
  by (simp add: powr_minus_divide roundHalfEven_def)

lemma double_0114: "roundDouble 0.114 = 8214565720323785 / 2 ^ 56"
  using roundDouble_binade [of "- 4" "0.114"]
  by (simp add: powr_minus_divide roundHalfEven_def)

lemma luminance_grey_128: "luminance 128 128 128 = 128 - 1 / 2 ^ 46"
proof -
  have t1: "roundDouble (roundDouble 0.299 * 128) = 5386305154335113 / 2 ^ 47"
    unfolding double_0299 using roundDouble_binade [of 5 "5386305154335113 / 2 ^ 54 * 128"]
    by (simp add: powr_minus_divide roundHalfEven_def)
  have t2: "roundDouble (roundDouble 0.587 * 128) = 2643612981266481 / 2 ^ 45"
    unfolding double_0587 using roundDouble_binade [of 6 "2643612981266481 / 2 ^ 52 * 128"]
    by (simp add: powr_minus_divide roundHalfEven_def)
  have t3: "roundDouble (roundDouble 0.114 * 128) = 8214565720323785 / 2 ^ 49"
    unfolding double_0114 using roundDouble_binade [of 3 "8214565720323785 / 2 ^ 56 * 128"]
    by (simp add: powr_minus_divide roundHalfEven_def)
  have s1: "roundDouble (5386305154335113 / 2 ^ 47 + 2643612981266481 / 2 ^ 45)
      = 3990189269850259 / 2 ^ 45"
    using roundDouble_binade [of 6 "5386305154335113 / 2 ^ 47 + 2643612981266481 / 2 ^ 45"]
    by (simp add: powr_minus_divide roundHalfEven_def)
  have s2: "roundDouble (3990189269850259 / 2 ^ 45 + 8214565720323785 / 2 ^ 49)
      = 9007199254740991 / 2 ^ 46"
    using roundDouble_binade [of 6 "3990189269850259 / 2 ^ 45 + 8214565720323785 / 2 ^ 49"]
    by (simp add: powr_minus_divide roundHalfEven_def)
  have "luminance 128 128 128 = 9007199254740991 / 2 ^ 46"
    unfolding luminance_def by (simp only: t1 t2 t3 s1 s2)
  then show ?thesis by simp
qed


lemma roundHalfEven_int: "roundHalfEven (real_of_int k) = k"
  by (simp add: roundHalfEven_def)

lemma roundDouble_half_integer:
  assumes "1 \<le> x" "x \<le> 512" "x * 2 = real_of_int m"
  shows "roundDouble x = x"
proof -
  define e where "e = exponentOf x"
  have "log 2 x \<le> log 2 512" using assms by simp
  also have "log 2 512 = 9"
  proof -
    have "(512::real) = 2 powr 9" by simp
    then show ?thesis by (simp only: log_powr_cancel)
  qed
  finally have "log 2 x \<le> 9" .
  moreover have "0 \<le> log 2 x" using assms(1) by simp
  ultimately have e: "0 \<le> e" "e \<le> 9" using assms(1) unfolding e_def exponentOf_def by simp_all
  define n where "n = nat (51 - e)"
  have "real_of_int (e - 52) = - real (Suc n)" using e by (simp add: n_def)
  then have ulp: "2 powr real_of_int (e - 52) = 1 / 2 ^ Suc n"
    by (simp only: powr_minus_divide powr_realpow zero_less_numeral)
  then have ulp': "2 powr (real_of_int e - 52) = 1 / 2 ^ Suc n" by simp
  have "x * 2 ^ Suc n = (x * 2) * 2 ^ n" by simp
  also have "\<dots> = real_of_int (m * 2 ^ n)" by (simp add: assms(3))
  finally have q: "x * 2 ^ Suc n = real_of_int (m * 2 ^ n)" .
  have "x \<noteq> 0" using assms(1) by simp
  moreover have "max e (- 1022) = e" using e by simp
  ultimately have "roundDouble x = real_of_int (roundHalfEven (x * 2 ^ Suc n)) / 2 ^ Suc n"
    by (simp add: roundDouble_def Let_def e_def [symmetric] ulp' del: power_Suc)
  also have "\<dots> = x * 2 ^ Suc n / 2 ^ Suc n"
    by (simp only: q roundHalfEven_int)
  also have "\<dots> = x" by simp
  finally show ?thesis .
qed

lemma byte_times_three_halves:
  assumes "n \<le> 255"
  shows "roundDouble (real n * 1.5) = 1.5 * real n"
proof (cases "n = 0")
  case True
  then show ?thesis by (simp add: roundDouble_zero)
next
  case False
  then have "1 \<le> real n" by simp
  then have "1 \<le> real n * 1.5" by simp
  moreover have "real n * 1.5 \<le> 512" using assms by simp
  moreover have "real n * 1.5 * 2 = real_of_int (3 * int n)" by simp
  ultimately have "roundDouble (real n * 1.5) = real n * 1.5" by (rule roundDouble_half_integer)
  then show ?thesis by simp
qed

lemma byte_luminance_below:
  fixes r g b :: nat
  assumes "r \<le> 255" "g \<le> 255" "b \<le> 255"
    and "0.299 * real r + 0.587 * real g + 0.114 * real b < 128"
  shows "luminance (real r) (real g) (real b) < 128"
proof -
  define k where "k = 299 * r + 587 * g + 114 * b"
  have ex: "0.299 * real r + 0.587 * real g + 0.114 * real b = real k / 1000"
    by (simp add: k_def)
  then have "real k < 128000" using assms(4) by simp
  then have "k < 128000" by linarith
  then have "k \<le> 127999" by simp
  then have "real k \<le> 127999" by linarith
  then have "real k / 1000 + 1 / 1000 \<le> 128" by simp
  moreover have "\<bar>luminance (real r) (real g) (real b) - real k / 1000\<bar> \<le> 1 / 2 ^ 30"
    using luminance_close [of "real r" "real g" "real b"] assms(1-3) by (simp only: ex)
  then have "\<bar>luminance (real r) (real g) (real b) - real k / 1000\<bar> < 1 / 1000"
    by (rule le_less_trans) simp
  ultimately show ?thesis by linarith
qed

lemma byte_luminance_above:
  fixes r g b :: nat
  assumes "r \<le> 255" "g \<le> 255" "b \<le> 255"
    and "0.299 * real r + 0.587 * real g + 0.114 * real b > 128"
  shows "\<not> luminance (real r) (real g) (real b) < 128"
proof -
  define k where "k = 299 * r + 587 * g + 114 * b"
  have ex: "0.299 * real r + 0.587 * real g + 0.114 * real b = real k / 1000"
    by (simp add: k_def)
  then have "real k > 128000" using assms(4) by simp
  then have "k > 128000" by linarith
  then have "k \<ge> 128001" by simp
  then have "real k \<ge> 128001" by linarith
  then have "real k / 1000 - 1 / 1000 \<ge> 128" by simp
  moreover have "\<bar>luminance (real r) (real g) (real b) - real k / 1000\<bar> \<le> 1 / 2 ^ 30"
    using luminance_close [of "real r" "real g" "real b"] assms(1-3) by (simp only: ex)
  then have "\<bar>luminance (real r) (real g) (real b) - real k / 1000\<bar> < 1 / 1000"
    by (rule le_less_trans) simp
  ultimately show ?thesis by linarith
qed

lemma grey_of_white: "140 \<le> jsRound (luminance 255 255 255)"
proof -
  have "\<bar>luminance 255 255 255 - (0.299 * 255 + 0.587 * 255 + 0.114 * 255)\<bar> \<le> 1 / 2 ^ 30"
    by (rule luminance_close) simp_all
  then have "\<bar>luminance 255 255 255 - 255\<bar> \<le> 1 / 2 ^ 30" by simp
  then have "\<bar>luminance 255 255 255 - 255\<bar> < 1"
    by (rule le_less_trans) simp
  then have "140 \<le> luminance 255 255 255 + 1 / 2" by linarith
  then show ?thesis by (simp add: jsRound_def le_floor_iff)
qed

lemma grey_of_red: "jsRound (luminance 255 0 0) < 140"
proof -
  have "\<bar>luminance 255 0 0 - (0.299 * 255 + 0.587 * 0 + 0.114 * 0)\<bar> \<le> 1 / 2 ^ 30"
    by (rule luminance_close) simp_all
  then have "\<bar>luminance 255 0 0 - 15249 / 200\<bar> \<le> 1 / 2 ^ 30" by simp
  then have "\<bar>luminance 255 0 0 - 15249 / 200\<bar> < 1"
    by (rule le_less_trans) simp
  then have "luminance 255 0 0 + 1 / 2 < 140" by linarith
  then show ?thesis by (simp add: jsRound_def floor_less_iff)
qed

lemma grey_of_black: "jsRound (luminance 0 0 0) = 0"
  by (simp add: luminance_black jsRound_def)

lemma luminance_grey_100: "luminance 100 100 100 < 128"
  using byte_luminance_below [of 100 100 100] by simp

text \<open>
  The grey value of the packer at the samples \<open>(117, 153, 129)\<close>: the exact sum is 139.5,
  which would round to 140; the sum computed in double precision is just below, and
  \<open>Math.round\<close> gives 139.
\<close>

lemma luminance_117_153_129: "luminance 117 153 129 = 4908219906392063 / 2 ^ 45"
proof -
  have t1: "roundDouble (roundDouble 0.299 * 117) = 4923419555134439 / 2 ^ 47"
    unfolding double_0299 using roundDouble_binade [of 5 "5386305154335113 / 2 ^ 54 * 117"]
    by (simp add: powr_minus_divide roundHalfEven_def)
  have t2: "roundDouble (roundDouble 0.587 * 153) = 6319887283340181 / 2 ^ 46"
    unfolding double_0587 using roundDouble_binade [of 6 "2643612981266481 / 2 ^ 52 * 153"]
    by (simp add: powr_minus_divide roundHalfEven_def)
  have t3: "roundDouble (roundDouble 0.114 * 129) = 8278742015013815 / 2 ^ 49"
    unfolding double_0114 using roundDouble_binade [of 3 "8214565720323785 / 2 ^ 56 * 129"]
    by (simp add: powr_minus_divide roundHalfEven_def)
  have s1: "roundDouble (4923419555134439 / 2 ^ 47 + 6319887283340181 / 2 ^ 46)
      = 1097699632613425 / 2 ^ 43"
    using roundDouble_binade [of 6 "4923419555134439 / 2 ^ 47 + 6319887283340181 / 2 ^ 46"]
    by (simp add: powr_minus_divide roundHalfEven_def)
  have s2: "roundDouble (1097699632613425 / 2 ^ 43 + 8278742015013815 / 2 ^ 49)
      = 4908219906392063 / 2 ^ 45"
    using roundDouble_binade [of 7 "1097699632613425 / 2 ^ 43 + 8278742015013815 / 2 ^ 49"]
    by (simp add: powr_minus_divide roundHalfEven_def)
  show ?thesis
    unfolding luminance_def by (simp only: t1 t2 t3 s1 s2)
qed

lemma grayscale_117_153_129:
  "grayscaleAt [117, 153, 129, 255] 0 = 139
   \<and> \<lfloor>(0.299 * 117 + 0.587 * 153 + 0.114 * 129 :: real) + 0.5\<rfloor> = 140"
proof -
  have "grayscaleAt [117, 153, 129, 255] 0 = jsRound (luminance 117 153 129)"
    by (simp add: grayscaleAt_def)
  also have "\<dots> = 139"
    unfolding luminance_117_153_129 jsRound_def by simp
  finally show ?thesis by simp
qed

section \<open>Colour quantisation: proofs\<close>

lemma closestStep_fold_mem:
  "snd st \<in> set ps \<union> S \<Longrightarrow> snd (fold (closestStep lab) ps st) \<in> set ps \<union> S"
proof (induction ps arbitrary: st S)
  case Nil
  then show ?case by simp
next
  case (Cons p ps)
  have "snd (closestStep lab p st) \<in> set ps \<union> (insert p S)"
    using Cons.prems by (auto simp: closestStep_def Let_def)
  from Cons.IH [OF this] show ?case by auto
qed

lemma selectPalette_nonempty: "selectPalette mode \<noteq> []"
  by (simp add: selectPalette_def rgbPalette_def fourColorPalette_def threeColorPalette_def)

lemma search_in_palette:
  "ps \<noteq> [] \<Longrightarrow> snd (fold (closestStep lab) ps (None, ps ! 0)) \<in> set ps"
proof -
  assume "ps \<noteq> []"
  then have "snd (None :: real option, ps ! 0) \<in> set ps \<union> {}"
    by (cases ps) auto
  from closestStep_fold_mem [OF this] show ?thesis by simp
qed

lemma findClosestColor_in_palette:
  "findClosestColor r g b mode \<in> set (selectPalette mode)"
proof -
  have blue: "mode \<noteq> FourColor \<Longrightarrow> mode \<noteq> ThreeColor \<Longrightarrow> rgbPalette ! 2 \<in> set (selectPalette mode)"
    by (simp add: selectPalette_def rgbPalette_def)
  have three: "mode = ThreeColor \<Longrightarrow> threeColorPalette ! k \<in> set (selectPalette mode)" if "k < 3" for k
    using that by (simp add: selectPalette_def threeColorPalette_def nth_Cons' )
  show ?thesis
    unfolding findClosestColor_def Let_def
    using blue three [of 0] three [of 1] three [of 2]
      search_in_palette [OF selectPalette_nonempty, of _ mode]
    by auto
qed

lemma closestStep_snoc_firstMinimal:
  assumes "ps \<noteq> []"
  shows "\<exists>i. firstMinimal (entryDistance r g b) ps i \<and>
    fold (closestStep (rgbToLab r g b)) ps (None, c0) = (Some (entryDistance r g b (ps ! i)), ps ! i)"
  using assms
proof (induction ps rule: rev_induct)
  case Nil
  then show ?case by simp
next
  case (snoc p qs)
  let ?d = "entryDistance r g b"
  show ?case
  proof (cases "qs = []")
    case True
    have "firstMinimal ?d [p] 0"
      by (simp add: firstMinimal_def)
    moreover have "fold (closestStep (rgbToLab r g b)) [p] (None, c0) = (Some (?d p), p)"
      by (simp add: closestStep_def entryDistance_def Let_def)
    ultimately show ?thesis using True by auto
  next
    case False
    from snoc.IH [OF False] obtain i where
      fm: "firstMinimal ?d qs i" and
      st: "fold (closestStep (rgbToLab r g b)) qs (None, c0) = (Some (?d (qs ! i)), qs ! i)"
      by blast
    have i: "i < length qs" using fm by (simp add: firstMinimal_def)
    show ?thesis
    proof (cases "?d p < ?d (qs ! i)")
      case True
      have "firstMinimal ?d (qs @ [p]) (length qs)"
        unfolding firstMinimal_def
      proof (intro conjI allI impI)
        show "length qs < length (qs @ [p])" by simp
      next
        fix j assume "j < length (qs @ [p])"
        then consider "j < length qs" | "j = length qs" by fastforce
        then show "?d ((qs @ [p]) ! length qs) \<le> ?d ((qs @ [p]) ! j)"
        proof cases
          case 1
          then have "?d (qs ! i) \<le> ?d (qs ! j)" using fm by (simp add: firstMinimal_def)
          with True 1 show ?thesis by (simp add: nth_append)
        next
          case 2
          then show ?thesis by simp
        qed
      next
        fix j assume j: "j < length qs"
        then have "?d (qs ! i) \<le> ?d (qs ! j)" using fm by (simp add: firstMinimal_def)
        with True j show "?d ((qs @ [p]) ! length qs) < ?d ((qs @ [p]) ! j)"
          by (simp add: nth_append)
      qed
      moreover have "fold (closestStep (rgbToLab r g b)) (qs @ [p]) (None, c0)
          = (Some (?d ((qs @ [p]) ! length qs)), (qs @ [p]) ! length qs)"
        using True st by (simp add: closestStep_def entryDistance_def Let_def)
      ultimately show ?thesis by blast
    next
      case False
      have "firstMinimal ?d (qs @ [p]) i"
        unfolding firstMinimal_def
      proof (intro conjI allI impI)
        show "i < length (qs @ [p])" using i by simp
      next
        fix j assume "j < length (qs @ [p])"
        then consider "j < length qs" | "j = length qs" by fastforce
        then show "?d ((qs @ [p]) ! i) \<le> ?d ((qs @ [p]) ! j)"
        proof cases
          case 1
          then have "?d (qs ! i) \<le> ?d (qs ! j)" using fm by (simp add: firstMinimal_def)
          with i 1 show ?thesis by (simp add: nth_append)
        next
          case 2
          with False i show ?thesis by (simp add: nth_append)
        qed
      next
        fix j assume j: "j < i"
        then have "?d (qs ! i) < ?d (qs ! j)" using fm by (simp add: firstMinimal_def)
        with i j show "?d ((qs @ [p]) ! i) < ?d ((qs @ [p]) ! j)"
          by (simp add: nth_append)
      qed
      moreover have "fold (closestStep (rgbToLab r g b)) (qs @ [p]) (None, c0)
          = (Some (?d ((qs @ [p]) ! i)), (qs @ [p]) ! i)"
        using False st i by (simp add: closestStep_def entryDistance_def Let_def nth_append)
      ultimately show ?thesis by blast
    qed
  qed
qed

lemma palette_names:
  "item_name ` set (selectPalette mode) =
     spec_palette_names (if mode = BlackWhiteColor then SixColor else mode)"
  by (cases mode)
    (auto simp: selectPalette_def spec_palette_names_def rgbPalette_def fourColorPalette_def
      threeColorPalette_def)

lemma blue_not_fourColor: "rgbPalette ! 2 \<notin> set fourColorPalette"
  by (simp add: rgbPalette_def fourColorPalette_def)

text \<open>
  C2 (as amended). \<open>findClosestColor\<close> is a function of its four arguments, defined on
  all of them, and its result is an entry of the palette the code selects for the mode:
  the three-colour palette in three-colour mode, the four-colour palette in four-colour
  mode, and the six-colour palette both in six-colour mode and in two-colour mode (the
  code has no two-colour palette). Where the Lab search runs (four-colour mode, and the
  other two modes when the blue shortcut does not fire) the result is the first entry of
  minimal distance in declaration order.
\<close>

theorem findClosestColor_total_member_first_minimal:
  "findClosestColor r g b mode \<in> set (selectPalette mode)
   \<and> item_name (findClosestColor r g b mode)
       \<in> spec_palette_names (if mode = BlackWhiteColor then SixColor else mode)
   \<and> selectPalette BlackWhiteColor = rgbPalette
   \<and> (mode = FourColor \<or> (mode \<noteq> ThreeColor \<and> \<not> (r < 50 \<and> g < 150 \<and> b > 100)) \<longrightarrow>
        (\<exists>i. firstMinimal (entryDistance r g b) (selectPalette mode) i
           \<and> findClosestColor r g b mode = selectPalette mode ! i))"
proof -
  have mem: "findClosestColor r g b mode \<in> set (selectPalette mode)"
    by (rule findClosestColor_in_palette)
  then have "item_name (findClosestColor r g b mode) \<in> item_name ` set (selectPalette mode)"
    by (rule imageI)
  then have nm: "item_name (findClosestColor r g b mode)
       \<in> spec_palette_names (if mode = BlackWhiteColor then SixColor else mode)"
    by (simp only: palette_names)
  have bw: "selectPalette BlackWhiteColor = rgbPalette"
    by (simp add: selectPalette_def)
  have search: "\<exists>i. firstMinimal (entryDistance r g b) (selectPalette mode) i
           \<and> findClosestColor r g b mode = selectPalette mode ! i"
    if c: "mode = FourColor \<or> (mode \<noteq> ThreeColor \<and> \<not> (r < 50 \<and> g < 150 \<and> b > 100))"
  proof -
    from closestStep_snoc_firstMinimal [OF selectPalette_nonempty, of r g b mode "selectPalette mode ! 0"]
    obtain i where fm: "firstMinimal (entryDistance r g b) (selectPalette mode) i"
      and st: "fold (closestStep (rgbToLab r g b)) (selectPalette mode) (None, selectPalette mode ! 0)
         = (Some (entryDistance r g b (selectPalette mode ! i)), selectPalette mode ! i)"
      by blast
    have "findClosestColor r g b mode
        = snd (fold (closestStep (rgbToLab r g b)) (selectPalette mode) (None, selectPalette mode ! 0))"
      using c by (auto simp: findClosestColor_def Let_def)
    with st fm show ?thesis by auto
  qed
  from mem nm bw search show ?thesis by blast
qed

theorem findClosestColor_total_member_first_minimal_witness:
  "findClosestColor 10 20 30 FourColor \<in> set fourColorPalette
   \<and> (\<exists>i. firstMinimal (entryDistance 10 20 30) fourColorPalette i
           \<and> findClosestColor 10 20 30 FourColor = fourColorPalette ! i)"
  using findClosestColor_total_member_first_minimal [of 10 20 30 FourColor]
  by (simp add: selectPalette_def)

text \<open>
  C2, counterexample. In two-colour mode the input \<open>(0, 0, 255)\<close> is mapped to blue, which
  is not an entry of the two-colour palette (black/white) the claim names.
\<close>

theorem findClosestColor_two_color_counterexample:
  "item_name (findClosestColor 0 0 255 BlackWhiteColor) = ''blue''
   \<and> item_name (findClosestColor 0 0 255 BlackWhiteColor) \<notin> spec_palette_names BlackWhiteColor"
  by (simp add: findClosestColor_def selectPalette_def rgbPalette_def spec_palette_names_def)

text \<open>
  C3 (as amended). For every input with \<open>r < 50\<close>, \<open>g < 150\<close> and \<open>b > 100\<close>,
  \<open>findClosestColor\<close> returns the blue entry of the six-colour palette in two-colour and
  in six-colour mode, with no distance search. In four-colour mode the shortcut is not
  taken: the result is an entry of the four-colour palette, which has no blue.
\<close>

theorem blue_shortcut_two_and_six_color:
  "r < 50 \<and> g < 150 \<and> b > 100 \<longrightarrow>
     (mode = BlackWhiteColor \<or> mode = SixColor \<longrightarrow>
        findClosestColor r g b mode = rgbPalette ! 2
        \<and> item_name (findClosestColor r g b mode) = ''blue'')
     \<and> (mode = FourColor \<longrightarrow>
        findClosestColor r g b mode \<in> set fourColorPalette
        \<and> findClosestColor r g b mode \<noteq> rgbPalette ! 2)"
proof (intro impI conjI)
  assume h: "r < 50 \<and> g < 150 \<and> b > 100" and m: "mode = BlackWhiteColor \<or> mode = SixColor"
  then show "findClosestColor r g b mode = rgbPalette ! 2"
    by (auto simp: findClosestColor_def Let_def)
  then show "item_name (findClosestColor r g b mode) = ''blue''"
    by (simp add: rgbPalette_def)
next
  assume m: "mode = FourColor"
  have "findClosestColor r g b mode \<in> set (selectPalette mode)"
    by (rule findClosestColor_in_palette)
  with m show mem: "findClosestColor r g b mode \<in> set fourColorPalette"
    by (simp add: selectPalette_def)
  with blue_not_fourColor show "findClosestColor r g b mode \<noteq> rgbPalette ! 2"
    by auto
qed

theorem blue_shortcut_two_and_six_color_witness:
  "(10::real) < 50 \<and> (20::real) < 150 \<and> (200::real) > 100
   \<and> findClosestColor 10 20 200 SixColor = rgbPalette ! 2
   \<and> item_name (findClosestColor 10 20 200 SixColor) = ''blue''
   \<and> findClosestColor 10 20 200 FourColor \<in> set fourColorPalette"
  using blue_shortcut_two_and_six_color [of 10 20 200 SixColor]
    blue_shortcut_two_and_six_color [of 10 20 200 FourColor]
  by auto

text \<open>
  C3, counterexample. The input \<open>(0, 0, 255)\<close> satisfies the condition of the shortcut,
  and in four-colour mode the result is not the blue entry.
\<close>

theorem blue_shortcut_four_color_counterexample:
  "(0::real) < 50 \<and> (0::real) < 150 \<and> (255::real) > 100
   \<and> findClosestColor 0 0 255 FourColor \<noteq> rgbPalette ! 2"
proof -
  have "findClosestColor 0 0 255 FourColor \<in> set (selectPalette FourColor)"
    by (rule findClosestColor_in_palette)
  then have "findClosestColor 0 0 255 FourColor \<in> set fourColorPalette"
    by (simp add: selectPalette_def)
  with blue_not_fourColor show ?thesis by auto
qed

text \<open>
  C4. In three-colour mode \<open>findClosestColor\<close> never reaches the Lab search. It returns
  red when \<open>r > 120\<close>, \<open>r > g * 1.5\<close> and \<open>r > b * 1.5\<close>, and otherwise black when the
  luminance \<open>0.299 * r + 0.587 * g + 0.114 * b\<close>, computed in double precision, is below
  128 and white when it is not. On samples between 0 and 255 the computed luminance is
  within \<open>2 ^ -30\<close> of the exact sum. On byte samples (integers from 0 to 255) the two
  products are exact, and the result is black when the exact sum is below 128 and white
  when it is above 128; when the exact sum is 128 the rounding of the computed sum
  decides.
\<close>

theorem three_color_bypasses_lab:
  "findClosestColor x y z ThreeColor =
     (if x > 120 \<and> x > roundDouble (y * 1.5) \<and> x > roundDouble (z * 1.5) then threeColorPalette ! 2
      else if luminance x y z < 128 then threeColorPalette ! 0
      else threeColorPalette ! 1)
   \<and> (0 \<le> x \<and> x \<le> 255 \<and> 0 \<le> y \<and> y \<le> 255 \<and> 0 \<le> z \<and> z \<le> 255 \<longrightarrow>
        \<bar>luminance x y z - (0.299 * x + 0.587 * y + 0.114 * z)\<bar> \<le> 1 / 2 ^ 30)
   \<and> (r \<le> 255 \<and> g \<le> 255 \<and> b \<le> 255 \<longrightarrow>
        findClosestColor (real r) (real g) (real b) ThreeColor =
          (if r > 120 \<and> real r > 1.5 * real g \<and> real r > 1.5 * real b then threeColorPalette ! 2
           else if 0.299 * real r + 0.587 * real g + 0.114 * real b < 128 then threeColorPalette ! 0
           else if 0.299 * real r + 0.587 * real g + 0.114 * real b > 128 then threeColorPalette ! 1
           else if luminance (real r) (real g) (real b) < 128 then threeColorPalette ! 0
           else threeColorPalette ! 1))
   \<and> item_name (threeColorPalette ! 2) = ''red''
   \<and> item_name (threeColorPalette ! 0) = ''black''
   \<and> item_name (threeColorPalette ! 1) = ''white''"
proof -
  have general: "findClosestColor x y z ThreeColor =
     (if x > 120 \<and> x > roundDouble (y * 1.5) \<and> x > roundDouble (z * 1.5) then threeColorPalette ! 2
      else if luminance x y z < 128 then threeColorPalette ! 0
      else threeColorPalette ! 1)" for x y z
    by (simp add: findClosestColor_def Let_def)
  have close: "\<bar>luminance x y z - (0.299 * x + 0.587 * y + 0.114 * z)\<bar> \<le> 1 / 2 ^ 30"
    if "0 \<le> x \<and> x \<le> 255 \<and> 0 \<le> y \<and> y \<le> 255 \<and> 0 \<le> z \<and> z \<le> 255"
    using that by (intro luminance_close) simp_all
  have bytes: "findClosestColor (real r) (real g) (real b) ThreeColor =
          (if r > 120 \<and> real r > 1.5 * real g \<and> real r > 1.5 * real b then threeColorPalette ! 2
           else if 0.299 * real r + 0.587 * real g + 0.114 * real b < 128 then threeColorPalette ! 0
           else if 0.299 * real r + 0.587 * real g + 0.114 * real b > 128 then threeColorPalette ! 1
           else if luminance (real r) (real g) (real b) < 128 then threeColorPalette ! 0
           else threeColorPalette ! 1)"
    if le: "r \<le> 255 \<and> g \<le> 255 \<and> b \<le> 255"
  proof -
    have pg: "roundDouble (real g * 1.5) = 1.5 * real g"
      using le by (intro byte_times_three_halves) simp
    have pb: "roundDouble (real b * 1.5) = 1.5 * real b"
      using le by (intro byte_times_three_halves) simp
    have below: "luminance (real r) (real g) (real b) < 128"
      if "0.299 * real r + 0.587 * real g + 0.114 * real b < 128"
      using le that by (intro byte_luminance_below) simp_all
    have above: "\<not> luminance (real r) (real g) (real b) < 128"
      if "0.299 * real r + 0.587 * real g + 0.114 * real b > 128"
      using le that by (intro byte_luminance_above) simp_all
    show ?thesis
      unfolding general [of "real r" "real g" "real b"] pg pb
      using below above by auto
  qed
  have names: "item_name (threeColorPalette ! 2) = ''red''"
    "item_name (threeColorPalette ! 0) = ''black''"
    "item_name (threeColorPalette ! 1) = ''white''"
    by (simp_all add: threeColorPalette_def)
  show ?thesis using general close bytes names by blast
qed

theorem three_color_bypasses_lab_witness:
  "item_name (findClosestColor 200 10 10 ThreeColor) = ''red''
   \<and> item_name (findClosestColor 100 100 100 ThreeColor) = ''black''
   \<and> item_name (findClosestColor 200 200 200 ThreeColor) = ''white''
   \<and> \<bar>luminance 128 128 128 - (0.299 * 128 + 0.587 * 128 + 0.114 * 128)\<bar> \<le> 1 / 2 ^ 30"
  using three_color_bypasses_lab [where r = 200 and g = 10 and b = 10 and x = 128 and y = 128 and z = 128]
    three_color_bypasses_lab [where r = 100 and g = 100 and b = 100 and x = 0 and y = 0 and z = 0]
    three_color_bypasses_lab [where r = 200 and g = 200 and b = 200 and x = 0 and y = 0 and z = 0]
  by simp

text \<open>
  C4, counterexample. For the grey \<open>(128, 128, 128)\<close> the red test fails and the exact sum
  \<open>0.299 * 128 + 0.587 * 128 + 0.114 * 128\<close> is 128, not below 128; the sum computed in
  double precision is \<open>128 - 2 ^ -46\<close>, and \<open>findClosestColor\<close> returns black.
\<close>

theorem three_color_grey_128_counterexample:
  "\<not> ((128::real) > 120 \<and> (128::real) > 1.5 * 128 \<and> (128::real) > 1.5 * 128)
   \<and> \<not> (0.299 * 128 + 0.587 * 128 + 0.114 * 128 < (128::real))
   \<and> luminance 128 128 128 = 128 - 1 / 2 ^ 46
   \<and> findClosestColor 128 128 128 ThreeColor = threeColorPalette ! 0
   \<and> item_name (findClosestColor 128 128 128 ThreeColor) = ''black''"
proof -
  have l: "luminance 128 128 128 = 128 - 1 / 2 ^ 46" by (rule luminance_grey_128)
  then have "luminance 128 128 128 < 128" by simp
  moreover have "roundDouble (128 * 1.5) = 192"
    using byte_times_three_halves [of 128] by simp
  ultimately have "findClosestColor 128 128 128 ThreeColor = threeColorPalette ! 0"
    by (simp add: findClosestColor_def Let_def)
  with l show ?thesis by (simp add: threeColorPalette_def)
qed


section \<open>Contrast and dithering: proofs\<close>

lemma alpha_update: "i mod 4 = 3 \<Longrightarrow> k mod 4 \<noteq> 3 \<Longrightarrow> d[k := v] ! i = d ! i"
  by (metis nth_list_update_neq)

lemma setRGB_alpha:
  assumes "i mod 4 = 3" "idx mod 4 = 0"
  shows "setRGB d idx c ! i = d ! i"
proof -
  have "idx mod 4 \<noteq> 3" "(idx + 1) mod 4 \<noteq> 3" "(idx + 2) mod 4 \<noteq> 3"
    using assms(2) by presburger+
  then show ?thesis
    unfolding setRGB_def using assms(1) by (simp add: alpha_update)
qed

lemma fold_preserves:
  assumes "\<And>k s. k \<in> set ks \<Longrightarrow> P s \<Longrightarrow> P (f k s)" and "P s"
  shows "P (fold f ks s)"
  using assms by (induction ks arbitrary: s) auto

lemma requantize_alpha:
  "i mod 4 = 3 \<Longrightarrow> fold (requantize w mode tmp) ks d ! i = d ! i"
  by (rule fold_preserves [where P = "\<lambda>s. s ! i = d ! i"])
    (auto simp: requantize_def Let_def setRGB_alpha)

lemma bayer_alpha:
  "i mod 4 = 3 \<Longrightarrow> fold (bayerStep w strength mode) ks d ! i = d ! i"
  by (rule fold_preserves [where P = "\<lambda>s. s ! i = d ! i"])
    (auto simp: bayerStep_def Let_def setRGB_alpha)

lemma atkinson_alpha:
  "i mod 4 = 3 \<Longrightarrow> fst (fold (atkinsonStep w h strength mode) ks (d, t)) ! i = d ! i"
  by (rule fold_preserves [where P = "\<lambda>s. fst s ! i = d ! i"])
    (auto simp: atkinsonStep_def Let_def setRGB_alpha split: prod.splits)

lemma jarvis_alpha:
  "i mod 4 = 3 \<Longrightarrow> fst (fold (jarvisStep w h strength mode) ks (d, t)) ! i = d ! i"
  by (rule fold_preserves [where P = "\<lambda>s. fst s ! i = d ! i"])
    (auto simp: jarvisStep_def Let_def setRGB_alpha split: prod.splits)

lemma contrastStep_alpha:
  assumes "i mod 4 = 3" "k mod 4 = 0"
  shows "contrastStep factor k d ! i = d ! i"
proof -
  have "k mod 4 \<noteq> 3" "(k + 1) mod 4 \<noteq> 3" "(k + 2) mod 4 \<noteq> 3"
    using assms(2) by presburger+
  then show ?thesis
    unfolding contrastStep_def Let_def using assms(1) by (simp add: alpha_update)
qed

lemma contrast_alpha:
  "i mod 4 = 3 \<Longrightarrow> fold (contrastStep factor) (map (\<lambda>k. 4 * k) ns) d ! i = d ! i"
  by (rule fold_preserves [where P = "\<lambda>s. s ! i = d ! i"])
    (auto simp: contrastStep_alpha)

text \<open>
  C9. \<open>adjustContrast\<close> and \<open>ditherImage\<close>, whatever the algorithm it dispatches to
  (Floyd-Steinberg, Atkinson, Stucki, Jarvis, Bayer or none), leave every fourth sample
  of the buffer, the alpha component of each pixel, as it was: only red, green and blue
  samples are written.
\<close>

theorem alpha_channel_unchanged:
  "i mod 4 = 3 \<longrightarrow>
     data (adjustContrast imageData factor) ! i = data imageData ! i
     \<and> data (ditherImage imageData alg strength mode) ! i = data imageData ! i"
proof
  assume i: "i mod 4 = 3"
  have a: "data (adjustContrast imageData factor) ! i = data imageData ! i"
    using i by (simp add: adjustContrast_def contrast_alpha)
  have b: "data (ditherImage imageData alg strength mode) ! i = data imageData ! i"
    using i
    by (cases alg)
      (simp_all add: ditherImage_def floydSteinbergDither_def atkinsonDither_def stuckiDither_def
        jarvisDither_def bayerDither_def Let_def requantize_alpha bayer_alpha atkinson_alpha
        jarvis_alpha)
  from a b show "data (adjustContrast imageData factor) ! i = data imageData ! i
     \<and> data (ditherImage imageData alg strength mode) ! i = data imageData ! i" by simp
qed

theorem alpha_channel_unchanged_witness:
  "(3::nat) mod 4 = 3
   \<and> data (adjustContrast \<lparr>width = 1, height = 1, data = [10, 20, 30, 77]\<rparr> 1.5) ! 3 = 77
   \<and> data (ditherImage \<lparr>width = 1, height = 1, data = [10, 20, 30, 77]\<rparr> Bayer 1 ThreeColor) ! 3 = 77"
  using alpha_channel_unchanged
    [of 3 "\<lparr>width = 1, height = 1, data = [10, 20, 30, 77]\<rparr>" "1.5" Bayer 1 ThreeColor]
  by simp

text \<open>
  C8 (as amended). With the algorithm \<open>none\<close>, \<open>ditherImage\<close> returns the image it was
  given, unchanged: no sample is perturbed and none is quantised. Quantisation to the
  palette happens only later, when the image is packed.
\<close>

theorem none_returns_image_unchanged:
  "ditherImage imageData NoDither strength mode = imageData"
  by (simp add: ditherImage_def)

theorem none_returns_image_unchanged_witness:
  "ditherImage \<lparr>width = 1, height = 1, data = [100, 100, 100, 255]\<rparr> NoDither 1 SixColor
     = \<lparr>width = 1, height = 1, data = [100, 100, 100, 255]\<rparr>"
  using none_returns_image_unchanged
    [of "\<lparr>width = 1, height = 1, data = [100, 100, 100, 255]\<rparr>" 1 SixColor]
  by simp

text \<open>
  C8, counterexample. The grey pixel \<open>(100, 100, 100)\<close> has the closest three-colour entry
  black, \<open>(0, 0, 0)\<close>, and \<open>ditherImage\<close> with \<open>none\<close> leaves it grey.
\<close>

theorem none_does_not_quantize_counterexample:
  "data (ditherImage \<lparr>width = 1, height = 1, data = [100, 100, 100, 255]\<rparr> NoDither 1 ThreeColor)
     = [100, 100, 100, 255]
   \<and> item_r (findClosestColor 100 100 100 ThreeColor) = 0
   \<and> item_g (findClosestColor 100 100 100 ThreeColor) = 0
   \<and> item_b (findClosestColor 100 100 100 ThreeColor) = 0"
proof -
  have "roundDouble (100 * 1.5) = 150"
    using byte_times_three_halves [of 100] by simp
  then have "findClosestColor 100 100 100 ThreeColor = threeColorPalette ! 0"
    using luminance_grey_100 by (simp add: findClosestColor_def Let_def)
  then show ?thesis by (simp add: ditherImage_def threeColorPalette_def)
qed


section \<open>Packing and decoding: proofs\<close>

lemma ceil_div4: "nat \<lceil>real n / 4\<rceil> = (n + 3) div 4"
  by linarith

lemma ceil_div8: "nat \<lceil>real n / 8\<rceil> = (n + 7) div 8"
  by linarith

lemma length_fold_six: "length (fold (packSixColor w h d mode) ks s) = length s"
  by (rule fold_preserves [where P = "\<lambda>t. length t = length s"])
    (auto simp: packSixColor_def Let_def)

lemma length_fold_four: "length (fold (packFourColor w d mode) ks s) = length s"
  by (rule fold_preserves [where P = "\<lambda>t. length t = length s"])
    (auto simp: packFourColor_def orByte_def Let_def)

lemma length_fold_bw: "length (fold (packBlackWhite w d) ks s) = length s"
  by (rule fold_preserves [where P = "\<lambda>t. length t = length s"])
    (auto simp: packBlackWhite_def orByte_def Let_def)

lemma length_fold_three:
  "length (fst (fold (packThreeColor w d) ks (s1, s2))) = length s1
   \<and> length (snd (fold (packThreeColor w d) ks (s1, s2))) = length s2"
  by (rule fold_preserves [where P = "\<lambda>t. length (fst t) = length s1 \<and> length (snd t) = length s2"])
    (auto simp: packThreeColor_def orByte_def clearBits_def Let_def split: prod.splits)

text \<open>
  C7. The number of bytes \<open>processImageData\<close> produces is determined by the width, the
  height and the colour mode, whatever the samples are: \<open>width * height\<close> in six-colour
  mode, \<open>ceil (width * height / 4)\<close> in four-colour mode, \<open>ceil (width / 8) * height\<close> in
  two-colour mode and twice that in three-colour mode.
\<close>

theorem payload_length:
  "length (processImageData imageData mode) =
     (case mode of
        SixColor \<Rightarrow> width imageData * height imageData
      | FourColor \<Rightarrow> nat \<lceil>real (width imageData * height imageData) / 4\<rceil>
      | BlackWhiteColor \<Rightarrow> nat \<lceil>real (width imageData) / 8\<rceil> * height imageData
      | ThreeColor \<Rightarrow> 2 * nat \<lceil>real (width imageData) / 8\<rceil> * height imageData)"
  by (cases mode)
    (simp_all add: processImageData_def Let_def length_fold_six length_fold_four length_fold_bw
      length_fold_three del: of_nat_mult)

theorem payload_length_witness:
  "length (processImageData \<lparr>width = 3, height = 2, data = replicate 24 0\<rparr> FourColor) = 2
   \<and> length (processImageData \<lparr>width = 3, height = 2, data = replicate 24 255\<rparr> FourColor) = 2"
  using payload_length [of "\<lparr>width = 3, height = 2, data = replicate 24 0\<rparr>" FourColor]
    payload_length [of "\<lparr>width = 3, height = 2, data = replicate 24 255\<rparr>" FourColor]
    ceil_div4 [of 6]
  by simp

section \<open>Transport: proofs\<close>

lemma write_ble_connected:
  assumes "staysConnected s"
  shows "staysConnected (snd (write_ble cmd dat wr s))
    \<and> map sentAs (wire (snd (write_ble cmd dat wr s))) = map sentAs (wire s) @ [(wr, cmd # dat)]"
proof (cases "link s")
  case Nil
  then show ?thesis using assms
    by (simp add: write_ble_def staysConnected_def sentAs_def Let_def)
next
  case (Cons e es)
  then have "e \<noteq> Disconnects" "Disconnects \<notin> set es" using assms
    by (auto simp: staysConnected_def)
  then show ?thesis using assms Cons
    by (cases e) (simp_all add: write_ble_def staysConnected_def sentAs_def Let_def)
qed

lemma jsSlice_nat:
  assumes "a < length xs"
  shows "jsSlice xs (int a) (int (a + c)) = take c (drop a xs)"
proof -
  have k: "min (int a) (int (length xs)) = int a" using assms by simp
  have e: "min (int (a + c)) (int (length xs)) = int (min (a + c) (length xs))" by simp
  have "nat (int (min (a + c) (length xs)) - int a) = min (a + c) (length xs) - a"
    by (simp del: of_nat_add of_nat_min)
  moreover have "take (min (a + c) (length xs) - a) (drop a xs) = take c (drop a xs)"
  proof (cases "a + c \<le> length xs")
    case True
    then show ?thesis by (simp add: min_def)
  next
    case False
    then have "min (a + c) (length xs) - a = length (drop a xs)" by (simp add: min_def)
    moreover have "length (drop a xs) \<le> c" using False by simp
    ultimately show ?thesis by simp
  qed
  ultimately show ?thesis
    unfolding jsSlice_def Let_def
    by (simp only: k e of_nat_less_0_iff if_False nat_int)
qed

lemma chunk_count: "0 < c \<Longrightarrow> (k * c < N) = (k < (N + c - 1) div c)" for c k N :: nat
proof -
  assume c: "0 < c"
  have "(k < (N + c - 1) div c) = (Suc k * c \<le> N + c - 1)"
    using c by (simp add: less_eq_div_iff_mult_less_eq Suc_le_eq [symmetric] del: mult_Suc)
  also have "\<dots> = (k * c < N)" using c by auto
  finally show ?thesis by simp
qed


lemma writeImageLoop_chunks:
  assumes c: "0 < c" and conn: "staysConnected s"
    and nrc: "noReplyCount = ic - int (k mod (nat ic + 1))"
    and n: "n = (length dat + c - 1) div c"
  shows "\<exists>s'. writeImageLoop dat step (int c) ic (int (k * c)) noReplyCount s = Some s'
     \<and> staysConnected s'
     \<and> map sentAs (wire s') = map sentAs (wire s)
          @ map (\<lambda>j. ((j + 1) mod (nat ic + 1) = 0, chunkFrame dat step c j)) [k..<n]"
  using conn nrc
proof (induction "n - k" arbitrary: k noReplyCount s)
  case 0
  then have "\<not> k < n" by simp
  then have "\<not> k * c < length dat" using chunk_count [OF c, of k "length dat"] n by simp
  then have "\<not> int (k * c) < int (length dat)" by (simp del: of_nat_mult)
  then have "writeImageLoop dat step (int c) ic (int (k * c)) noReplyCount s = Some s"
    by (subst writeImageLoop.simps) (simp only: if_False)
  moreover have "[k..<n] = []" using \<open>\<not> k < n\<close> by simp
  ultimately show ?case using "0.prems" by simp
next
  case (Suc d)
  then have kn: "k < n" by simp
  then have lt: "k * c < length dat" using chunk_count [OF c, of k "length dat"] n by simp
  let ?ack = "(k + 1) mod (nat ic + 1) = 0"
  let ?payload = "chunkHeader step k # take c (drop (k * c) dat)"
  let ?s1 = "snd (write_ble EpdCmd_WRITE_IMG ?payload ?ack s)"
  let ?nrc1 = "ic - int (Suc k mod (nat ic + 1))"
  have ackiff: "(noReplyCount > 0) = (\<not> ?ack)"
  proof -
    have "k mod (nat ic + 1) < nat ic + 1" by simp
    show ?thesis
    proof (cases "ic < 0")
      case True
      then show ?thesis using Suc.prems(2) by simp
    next
      case False
      then have "(noReplyCount > 0) = (k mod (nat ic + 1) < nat ic)" using Suc.prems(2) by auto
      also have "\<dots> = (\<not> ?ack)"
      proof -
        have "(Suc k mod Suc (nat ic) = 0) = (k mod Suc (nat ic) = nat ic)"
          by (simp add: mod_Suc)
        moreover have "k mod Suc (nat ic) < Suc (nat ic)" by simp
        then have "(k mod Suc (nat ic) < nat ic) = (k mod Suc (nat ic) \<noteq> nat ic)" by arith
        ultimately show ?thesis by simp
      qed
      finally show ?thesis .
    qed
  qed
  have nrcnext: "(if noReplyCount > 0 then noReplyCount - 1 else ic) = ?nrc1"
  proof (cases "noReplyCount > 0")
    case True
    then have "\<not> ?ack" using ackiff by simp
    then have "Suc k mod (nat ic + 1) = Suc (k mod (nat ic + 1))"
      by (simp add: mod_Suc split: if_splits)
    then show ?thesis using True Suc.prems(2) by simp
  next
    case False
    then have "?ack" using ackiff by simp
    then show ?thesis using False by simp
  qed
  have step1: "writeImageLoop dat step (int c) ic (int (k * c)) noReplyCount s
      = writeImageLoop dat step (int c) ic (int (Suc k * c)) ?nrc1 ?s1"
  proof -
    have hd: "((if step = ''bw'' then 0x0F else 0x00) OR (if int (k * c) = 0 then 0x00 else 0xF0) :: 8 word)
        = chunkHeader step k"
      using c by (simp add: chunkHeader_def)
    have idx: "int (k * c) + int c = int (Suc k * c)" by (simp add: algebra_simps)
    have "jsSlice dat (int (k * c)) (int (k * c + c)) = take c (drop (k * c) dat)"
      by (rule jsSlice_nat [OF lt])
    then have sl: "jsSlice dat (int (k * c)) (int (Suc k * c)) = take c (drop (k * c) dat)"
      by (simp add: add.commute)
    have lt': "int (k * c) < int (length dat)" using lt by (simp del: of_nat_mult)
    show ?thesis
    proof (cases "noReplyCount > 0")
      case True
      then have "\<not> ?ack" "?nrc1 = noReplyCount - 1" using ackiff nrcnext by auto
      then show ?thesis
        by (subst writeImageLoop.simps) (simp only: lt' True hd sl idx Let_def if_True)
    next
      case False
      then have "?ack" "?nrc1 = ic" using ackiff nrcnext by auto
      then show ?thesis
        by (subst writeImageLoop.simps) (simp only: lt' False hd sl idx Let_def if_True if_False; simp)
    qed
  qed
  have c1: "staysConnected ?s1"
    and w1: "map sentAs (wire ?s1) = map sentAs (wire s) @ [(?ack, EpdCmd_WRITE_IMG # ?payload)]"
    using write_ble_connected [OF Suc.prems(1), of EpdCmd_WRITE_IMG ?payload ?ack] by simp_all
  have "d = n - Suc k" using Suc.hyps(2) by simp
  from Suc.hyps(1) [OF this c1 refl]
  obtain s' where s': "writeImageLoop dat step (int c) ic (int (Suc k * c)) ?nrc1 ?s1 = Some s'"
    and cs': "staysConnected s'"
    and ws': "map sentAs (wire s') = map sentAs (wire ?s1)
          @ map (\<lambda>j. ((j + 1) mod (nat ic + 1) = 0, chunkFrame dat step c j)) [Suc k..<n]"
    by blast
  have "[k..<n] = k # [Suc k..<n]" using kn by (simp add: upt_conv_Cons)
  then have "map sentAs (wire s') = map sentAs (wire s)
          @ map (\<lambda>j. ((j + 1) mod (nat ic + 1) = 0, chunkFrame dat step c j)) [k..<n]"
    using ws' w1 by (simp add: chunkFrame_def)
  with s' cs' step1 show ?case by simp
qed


lemma ceil_chunks:
  assumes "0 < c"
  shows "nat \<lceil>real N / real c\<rceil> = (N + c - 1) div c"
proof -
  let ?z = "(N + c - 1) div c"
  have up: "N \<le> ?z * c" using chunk_count [OF assms, of ?z N] by simp
  have "\<lceil>real N / real c\<rceil> = int ?z"
  proof (rule ceiling_unique)
    show "real N / real c \<le> of_int (int ?z)"
    proof -
      have "real N \<le> real (?z * c)" using up by (simp only: of_nat_le_iff)
      then show ?thesis using assms by (simp add: divide_le_eq)
    qed
  next
    show "of_int (int ?z) - 1 < real N / real c"
    proof (cases "?z = 0")
      case True
      then show ?thesis
        using assms by (auto intro: order.strict_trans2 [of _ 0])
    next
      case False
      then have "?z - 1 < ?z" by simp
      then have "(?z - 1) * c < N" using chunk_count [OF assms, of "?z - 1" N] by simp
      then have "real ((?z - 1) * c) < real N" by (simp only: of_nat_less_iff)
      moreover have "real (?z - 1) = real ?z - 1" using False by (simp add: of_nat_diff)
      ultimately have "(real ?z - 1) * real c < real N" by simp
      then show ?thesis using assms by (simp add: less_divide_eq)
    qed
  qed
  then show ?thesis by simp
qed

text \<open>
  C5 (as amended). With a transport unit size above 2 and a session that stays
  connected, \<open>writeImage\<close> ends and has sent \<open>ceil (N / (U - 2))\<close> frames for a payload of
  \<open>N\<close> bytes, one after the other in payload order, each holding the next \<open>U - 2\<close> bytes.
  After every \<open>interleavedCount\<close> writes without response comes one write with response:
  the frames written with response are exactly those whose position, counted from 1, is
  a multiple of \<open>interleavedCount + 1\<close>.
\<close>

theorem writeImage_chunks_and_acks:
  "2 < mtu \<Longrightarrow> staysConnected s \<Longrightarrow>
     (\<exists>s'. writeImage dat step mtu ic s = Some s'
        \<and> map sentAs (wire s') = map sentAs (wire s)
            @ map (\<lambda>j. ((j + 1) mod (nat ic + 1) = 0,
                         chunkFrame dat step (nat (mtu - 2)) j))
                [0..<nat \<lceil>real (length dat) / real_of_int (mtu - 2)\<rceil>])"
proof -
  assume m: "2 < mtu" and conn: "staysConnected s"
  define c where "c = nat (mtu - 2)"
  have c: "0 < c" and ci: "mtu - 2 = int c" using m by (simp_all add: c_def)
  have n: "nat \<lceil>real (length dat) / real_of_int (mtu - 2)\<rceil> = (length dat + c - 1) div c"
    using ceil_chunks [OF c, of "length dat"] by (simp add: ci)
  from writeImageLoop_chunks [OF c conn, of ic ic 0 _ dat step, OF _ refl]
  obtain s' where "writeImageLoop dat step (int c) ic (int (0 * c)) ic s = Some s'"
    and "map sentAs (wire s') = map sentAs (wire s)
          @ map (\<lambda>j. ((j + 1) mod (nat ic + 1) = 0, chunkFrame dat step c j))
              [0..<(length dat + c - 1) div c]"
    by auto
  then show ?thesis
    unfolding n by (simp add: writeImage_def ci Let_def c_def [symmetric])
qed

theorem writeImage_chunks_and_acks_witness:
  "(2::int) < 3 \<and> staysConnected session0
   \<and> (\<exists>s'. writeImage [1, 2, 3] ''bw'' 3 2 session0 = Some s'
        \<and> map sentAs (wire s') =
             [(False, [0x30, 0x0F, 1]), (False, [0x30, 0xFF, 2]), (True, [0x30, 0xFF, 3])])"
  using writeImage_chunks_and_acks [of 3 session0 "[1, 2, 3]" "''bw''" 2]
  by (simp add: staysConnected_def session0_def chunkFrame_def chunkHeader_def EpdCmd_WRITE_IMG_def
      upt_conv_Cons)

lemma writeImageLoop_never_ends:
  assumes "writeImageLoop dat step chunkSize ic i nrc s = Some y"
  shows "\<not> (chunkSize \<le> 0 \<and> i < int (length dat))"
proof (rule writeImageLoop.raw_induct
    [where P = "\<lambda>dat step chunkSize ic i nrc s y. \<not> (chunkSize \<le> 0 \<and> i < int (length dat))",
      OF _ assms])
  fix f :: "8 word list \<Rightarrow> string \<Rightarrow> int \<Rightarrow> int \<Rightarrow> int \<Rightarrow> int \<Rightarrow> session \<Rightarrow> session option"
  fix dat step chunkSize ic i nrc s y
  assume IH: "\<And>dat step chunkSize ic i nrc s y.
      f dat step chunkSize ic i nrc s = Some y \<Longrightarrow> \<not> (chunkSize \<le> 0 \<and> i < int (length dat))"
  assume eq: "(if i < int (length dat)
     then (let payload = ((if step = ''bw'' then 0x0F else 0x00) OR (if i = 0 then 0x00 else 0xF0))
                           # jsSlice dat i (i + chunkSize)
           in if nrc > 0
              then f dat step chunkSize ic (i + chunkSize)
                     (nrc - 1) (snd (write_ble EpdCmd_WRITE_IMG payload False s))
              else f dat step chunkSize ic (i + chunkSize)
                     ic (snd (write_ble EpdCmd_WRITE_IMG payload True s)))
     else Some s) = Some y"
  show "\<not> (chunkSize \<le> 0 \<and> i < int (length dat))"
  proof
    assume a: "chunkSize \<le> 0 \<and> i < int (length dat)"
    then have b: "chunkSize \<le> 0 \<and> i + chunkSize < int (length dat)" by simp
    from eq a obtain nrc' s' where "f dat step chunkSize ic (i + chunkSize) nrc' s' = Some y"
      by (auto simp: Let_def split: if_splits)
    from IH [OF this] b show False by simp
  qed
qed

text \<open>
  C5, counterexample. With \<open>interleavedCount = 2\<close> and three one-byte chunks the write
  with response is the third one, not the second; and with a transport unit size of 2
  the chunk size is 0 and the loop never ends.
\<close>

theorem writeImage_ack_position_counterexample:
  "(\<exists>s'. writeImage [1, 2, 3] ''bw'' 3 2 session0 = Some s'
      \<and> map ww_withResponse (wire s') = [False, False, True])
   \<and> writeImage [1] ''bw'' 2 2 session0 = None"
proof
  show "\<exists>s'. writeImage [1, 2, 3] ''bw'' 3 2 session0 = Some s'
      \<and> map ww_withResponse (wire s') = [False, False, True]"
    by (simp add: writeImage_def writeImageLoop.simps write_ble_def session0_def jsSlice_def Let_def)
next
  show "writeImage [1] ''bw'' 2 2 session0 = None"
  proof (cases "writeImage [1] ''bw'' 2 2 session0")
    case None
    then show ?thesis .
  next
    case (Some y)
    then have "writeImageLoop [1] ''bw'' 0 2 0 2 session0 = Some y"
      by (simp add: writeImage_def)
    from writeImageLoop_never_ends [OF this] show ?thesis by simp
  qed
qed

text \<open>
  C10. With the colour mode \<open>sixColor\<close>, on a connected device, \<open>sendimg\<close> never sends an
  image frame or the REFRESH command and never returns \<open>true\<close>. When the driver select
  box is absent or has a selected option, the canvas gives its 2d context and its width
  and height are not zero, \<open>sendimg\<close> makes exactly one write, the INIT command sent with
  response, and returns \<open>false\<close>, whether the INIT write succeeds or fails. Otherwise it
  writes nothing: it returns \<open>false\<close> when there is no 2d context or the canvas has width
  or height zero, and it throws when the select box has no selected option.
\<close>

theorem sendimg_six_color_only_init:
  "hasCharacteristic s \<and> serverConnected s \<and> colorPalette inp = SixColor \<longrightarrow>
     (\<exists>s'. sendimg inp s
              = Some (if epddriver inp = NoSelectedOption then Thrown else Returned False, s')
        \<and> map sentAs (wire s')
              = map sentAs (wire s)
                @ (if epddriver inp \<noteq> NoSelectedOption \<and> hasContext inp
                      \<and> 0 < width (canvasImage inp) \<and> 0 < height (canvasImage inp)
                   then [(True, [EpdCmd_INIT])] else []))"
proof
  assume a: "hasCharacteristic s \<and> serverConnected s \<and> colorPalette inp = SixColor"
  let ?sent = "epddriver inp \<noteq> NoSelectedOption \<and> hasContext inp
                 \<and> 0 < width (canvasImage inp) \<and> 0 < height (canvasImage inp)"
  show "\<exists>s'. sendimg inp s
              = Some (if epddriver inp = NoSelectedOption then Thrown else Returned False, s')
        \<and> map sentAs (wire s')
              = map sentAs (wire s) @ (if ?sent then [(True, [EpdCmd_INIT])] else [])"
  proof (cases ?sent)
    case False
    then have "sendimg inp s
        = Some (if epddriver inp = NoSelectedOption then Thrown else Returned False, s)"
      using a by (auto simp: sendimg_def)
    with False show ?thesis by simp
  next
    case True
    show ?thesis
    proof (cases "link s")
      case Nil
      then show ?thesis using a True
        by (simp add: sendimg_def write_ble_def sentAs_def Let_def)
    next
      case (Cons e es)
      then show ?thesis using a True
        by (cases e) (simp_all add: sendimg_def write_ble_def sentAs_def Let_def)
    qed
  qed
qed

theorem sendimg_six_color_only_init_witness:
  "\<exists>s'. sendimg \<lparr>colorPalette = SixColor, epddriver = SelectAbsent, hasContext = True,
                  canvasImage = \<lparr>width = 1, height = 1, data = [255, 0, 0, 255]\<rparr>,
                  mtusize = 20, interleavedcount = 50\<rparr> session0 = Some (Returned False, s')
        \<and> map sentAs (wire s') = [(True, [0x01])]"
  using sendimg_six_color_only_init
    [of session0 "\<lparr>colorPalette = SixColor, epddriver = SelectAbsent, hasContext = True,
                  canvasImage = \<lparr>width = 1, height = 1, data = [255, 0, 0, 255]\<rparr>,
                  mtusize = 20, interleavedcount = 50\<rparr>"]
  by (simp add: session0_def EpdCmd_INIT_def)

text \<open>
  C10, counterexample. On a connected device with the colour mode \<open>sixColor\<close>, a canvas
  that gives no 2d context makes \<open>sendimg\<close> return \<open>false\<close> before the INIT command: nothing
  is written. The same holds for a canvas of width zero, and with a select box that
  has no selected option \<open>sendimg\<close> throws before any write.
\<close>

theorem sendimg_six_color_no_init_counterexample:
  "sendimg \<lparr>colorPalette = SixColor, epddriver = SelectAbsent, hasContext = False,
            canvasImage = \<lparr>width = 1, height = 1, data = [255, 0, 0, 255]\<rparr>,
            mtusize = 20, interleavedcount = 50\<rparr> session0 = Some (Returned False, session0)
   \<and> sendimg \<lparr>colorPalette = SixColor, epddriver = SelectAbsent, hasContext = True,
            canvasImage = \<lparr>width = 0, height = 1, data = []\<rparr>,
            mtusize = 20, interleavedcount = 50\<rparr> session0 = Some (Returned False, session0)
   \<and> sendimg \<lparr>colorPalette = SixColor, epddriver = NoSelectedOption, hasContext = True,
            canvasImage = \<lparr>width = 1, height = 1, data = [255, 0, 0, 255]\<rparr>,
            mtusize = 20, interleavedcount = 50\<rparr> session0 = Some (Thrown, session0)
   \<and> wire session0 = []"
  by (simp add: sendimg_def session0_def)

lemma ceil_one_eighth: "nat \<lceil>(1::real) / 8\<rceil> = 1"
  using ceil_div8 [of 1] by simp

lemma packed_two_rows:
  "processImageData \<lparr>width = 1, height = 2, data = [255, 255, 255, 255, 0, 0, 0, 255]\<rparr> BlackWhiteColor
     = [0x80, 0x00]"
  using grey_of_white grey_of_black
  by (simp add: processImageData_def raster_def packBlackWhite_def grayscaleAt_def
      orByte_def Let_def upt_conv_Cons ceil_one_eighth numeral_2_eq_2)



text \<open>
  C6, the code at a failing input. The link delivers INIT and fails the first image
  frame; the connection stays up. \<open>writeImage\<close> drops the result of \<open>write\<close>, so
  \<open>sendimg\<close> still sends the second frame and the REFRESH command and returns \<open>true\<close>.
\<close>

theorem sendimg_continues_after_failed_chunk:
  "sendimg \<lparr>colorPalette = BlackWhiteColor, epddriver = SelectAbsent, hasContext = True,
            canvasImage = \<lparr>width = 1, height = 2, data = [255, 255, 255, 255, 0, 0, 0, 255]\<rparr>,
            mtusize = 3, interleavedcount = 50\<rparr>
      \<lparr>hasCharacteristic = True, serverConnected = True, link = [Delivered, Failed], wire = []\<rparr>
   = Some (Returned True,
      \<lparr>hasCharacteristic = True, serverConnected = True, link = [],
       wire = [\<lparr>ww_withResponse = True, ww_payload = [0x01], ww_ok = True\<rparr>,
               \<lparr>ww_withResponse = False, ww_payload = [0x30, 0x0F, 0x80], ww_ok = False\<rparr>,
               \<lparr>ww_withResponse = False, ww_payload = [0x30, 0xFF, 0x00], ww_ok = True\<rparr>,
               \<lparr>ww_withResponse = True, ww_payload = [0x05], ww_ok = True\<rparr>]\<rparr>)"
proof -
  let ?w0 = "\<lparr>ww_withResponse = True, ww_payload = [0x01], ww_ok = True\<rparr>"
  let ?w1 = "\<lparr>ww_withResponse = False, ww_payload = [0x30, 0x0F, 0x80], ww_ok = False\<rparr>"
  let ?w2 = "\<lparr>ww_withResponse = False, ww_payload = [0x30, 0xFF, 0x00], ww_ok = True\<rparr>"
  let ?w3 = "\<lparr>ww_withResponse = True, ww_payload = [0x05], ww_ok = True\<rparr>"
  let ?s0 = "\<lparr>hasCharacteristic = True, serverConnected = True, link = [Delivered, Failed], wire = []\<rparr>"
  let ?s1 = "\<lparr>hasCharacteristic = True, serverConnected = True, link = [Failed], wire = [?w0]\<rparr>"
  let ?s2 = "\<lparr>hasCharacteristic = True, serverConnected = True, link = [], wire = [?w0, ?w1, ?w2]\<rparr>"
  let ?s3 = "\<lparr>hasCharacteristic = True, serverConnected = True, link = [], wire = [?w0, ?w1, ?w2, ?w3]\<rparr>"
  have init: "write_ble EpdCmd_INIT [] True ?s0 = (True, ?s1)"
    by (simp add: write_ble_def EpdCmd_INIT_def)
  have img: "writeImage [0x80, 0x00] ''bw'' 3 50 ?s1 = Some ?s2"
    by (simp add: writeImage_def writeImageLoop.simps write_ble_def jsSlice_def EpdCmd_WRITE_IMG_def)
  have refresh: "sendRefresh ?s2 = Some (Returned True, ?s3)"
    by (simp add: sendRefresh_def write_ble_def EpdCmd_REFRESH_def)
  show ?thesis
    unfolding sendimg_def Let_def
    by (simp add: packed_two_rows init img refresh del: One_nat_def)
qed

theorem sendimg_continues_after_failed_chunk_witness:
  "map_option fst
     (sendimg \<lparr>colorPalette = BlackWhiteColor, epddriver = SelectAbsent, hasContext = True,
            canvasImage = \<lparr>width = 1, height = 2, data = [255, 255, 255, 255, 0, 0, 0, 255]\<rparr>,
            mtusize = 3, interleavedcount = 50\<rparr>
      \<lparr>hasCharacteristic = True, serverConnected = True, link = [Delivered, Failed], wire = []\<rparr>)
   = Some (Returned True)"
  using sendimg_continues_after_failed_chunk by (simp only: option.map fst_conv)

section \<open>Round trip of packing and decoding: proofs\<close>

lemma set_raster: "set (raster w h) = {(y, x). y < h \<and> x < w}"
  by (auto simp: raster_def)

lemma distinct_raster: "distinct (raster w h)"
  by (simp add: raster_def distinct_product)

lemma pixel_index_inj: "inj_on (\<lambda>p. fst p * w + snd p) (set (raster w h))"
proof (rule inj_onI)
  fix p q assume p: "p \<in> set (raster w h)" and q: "q \<in> set (raster w h)"
    and e: "fst p * w + snd p = fst q * w + snd q"
  from p q have lt: "snd p < w" "snd q < w" by (auto simp: set_raster)
  have "(fst p * w + snd p) div w = (fst q * w + snd q) div w"
    and "(fst p * w + snd p) mod w = (fst q * w + snd q) mod w"
    using e by simp_all
  with lt have "fst p = fst q" "snd p = snd q" by simp_all
  then show "p = q" by (simp add: prod_eq_iff)
qed

lemma length_setRGBA: "length (setRGBA d i r g b a) = length d"
  by (simp add: setRGBA_def)

lemma setRGBA_same:
  "i * 4 + 3 < length d \<Longrightarrow>
   setRGBA d (i * 4) r g b a ! (i * 4) = r \<and> setRGBA d (i * 4) r g b a ! (i * 4 + 1) = g
   \<and> setRGBA d (i * 4) r g b a ! (i * 4 + 2) = b \<and> setRGBA d (i * 4) r g b a ! (i * 4 + 3) = a"
  by (simp add: setRGBA_def nth_list_update)

lemma setRGBA_other:
  "i \<noteq> j \<Longrightarrow> c < 4 \<Longrightarrow> setRGBA d (i * 4) r g b a ! (j * 4 + c) = d ! (j * 4 + c)"
proof -
  assume "i \<noteq> j" "c < 4"
  then have "i * 4 \<noteq> j * 4 + c" "i * 4 + 1 \<noteq> j * 4 + c" "i * 4 + 2 \<noteq> j * 4 + c"
    "i * 4 + 3 \<noteq> j * 4 + c"
    by presburger+
  then show ?thesis by (simp add: setRGBA_def)
qed

lemma fold_setRGBA_nth:
  assumes step: "\<And>p d. step p d = setRGBA d (pix p * 4) (R p) (G p) (B p) (A p)"
    and "distinct ks" "inj_on pix (set ks)" "k \<in> set ks" "pix k * 4 + 3 < length d"
  shows "fold step ks d ! (pix k * 4) = R k \<and> fold step ks d ! (pix k * 4 + 1) = G k
    \<and> fold step ks d ! (pix k * 4 + 2) = B k \<and> fold step ks d ! (pix k * 4 + 3) = A k"
  using assms(2-)
proof (induction ks rule: rev_induct)
  case Nil
  then show ?case by simp
next
  case (snoc q qs)
  have len: "length (fold step qs d) = length d"
    by (rule fold_preserves [where P = "\<lambda>t. length t = length d"]) (simp_all add: step length_setRGBA)
  have e: "fold step (qs @ [q]) d = setRGBA (fold step qs d) (pix q * 4) (R q) (G q) (B q) (A q)"
    by (simp only: fold_append fold_simps comp_def step [of q])
  show ?case
  proof (cases "k = q")
    case True
    then show ?thesis
      using setRGBA_same [of "pix q" "fold step qs d"] snoc.prems(4) len
      by (simp only: e)
  next
    case False
    then have kq: "k \<in> set qs" using snoc.prems(3) by simp
    have "q \<notin> set qs" using snoc.prems(1) by simp
    then have ne: "pix q \<noteq> pix k"
      using snoc.prems(2) kq False by (auto simp: inj_on_def)
    have ih: "fold step qs d ! (pix k * 4) = R k \<and> fold step qs d ! (pix k * 4 + 1) = G k
       \<and> fold step qs d ! (pix k * 4 + 2) = B k \<and> fold step qs d ! (pix k * 4 + 3) = A k"
      using snoc.IH snoc.prems kq by (simp add: inj_on_def)
    show ?thesis
      unfolding e
      using ih setRGBA_other [OF ne, of 0] setRGBA_other [OF ne, of 1] setRGBA_other [OF ne, of 2]
        setRGBA_other [OF ne, of 3]
      by simp
  qed
qed

lemma decode_fold_eq:
  assumes step: "\<And>p d. step p d = setRGBA d ((fst p * w + snd p) * 4) (R p) (G p) (B p) 255"
    and len: "length dq = 4 * w * h"
    and px: "\<And>y x. y < h \<Longrightarrow> x < w \<Longrightarrow>
       R (y, x) = dq ! ((y * w + x) * 4) \<and> G (y, x) = dq ! ((y * w + x) * 4 + 1)
       \<and> B (y, x) = dq ! ((y * w + x) * 4 + 2) \<and> dq ! ((y * w + x) * 4 + 3) = 255"
  shows "fold step (raster w h) (replicate (4 * w * h) 0) = dq"
proof (rule nth_equalityI)
  show l: "length (fold step (raster w h) (replicate (4 * w * h) 0)) = length dq"
    using len
    by (simp add: fold_preserves [where P = "\<lambda>t. length t = 4 * w * h"] step length_setRGBA)
  fix i assume "i < length (fold step (raster w h) (replicate (4 * w * h) 0))"
  then have i: "i < 4 * w * h" using l len by simp
  define p where "p = i div 4"
  define c where "c = i mod 4"
  define y where "y = p div w"
  define x where "x = p mod w"
  have w: "0 < w" using i by (cases w) auto
  have ip: "i = p * 4 + c" and c: "c < 4" by (simp_all add: p_def c_def)
  have p: "p < w * h" using i by (simp add: p_def less_mult_imp_div_less mult.commute mult.assoc)
  have xy: "p = y * w + x" and x: "x < w" using w by (simp_all add: x_def y_def)
  have y: "y < h" using p w by (simp add: y_def less_mult_imp_div_less mult.commute)
  have k: "(y, x) \<in> set (raster w h)" using x y by (simp add: set_raster)
  have b: "(fst (y, x) * w + snd (y, x)) * 4 + 3 < length (replicate (4 * w * h) (0::nat))"
    using p xy by simp
  from fold_setRGBA_nth [where pix = "\<lambda>p. fst p * w + snd p" and A = "\<lambda>p. 255", OF step
      distinct_raster pixel_index_inj k b]
  have f: "fold step (raster w h) (replicate (4 * w * h) 0) ! (p * 4) = R (y, x)"
    "fold step (raster w h) (replicate (4 * w * h) 0) ! (p * 4 + 1) = G (y, x)"
    "fold step (raster w h) (replicate (4 * w * h) 0) ! (p * 4 + 2) = B (y, x)"
    "fold step (raster w h) (replicate (4 * w * h) 0) ! (p * 4 + 3) = 255"
    by (simp_all add: xy)
  from c consider "c = 0" | "c = 1" | "c = 2" | "c = 3" by linarith
  then show "fold step (raster w h) (replicate (4 * w * h) 0) ! i = dq ! i"
    using f px [OF y x] by cases (simp_all add: ip xy)
qed

lemma fold_snoc: "fold f (qs @ [q]) a = f q (fold f qs a)"
  by simp

lemma fold_update_nth:
  assumes step: "\<And>p a. step p a = a[pos p := v p]"
    and "distinct ks" "inj_on pos (set ks)" "k \<in> set ks" "pos k < length a"
  shows "fold step ks a ! pos k = v k"
  using assms(2-)
proof (induction ks rule: rev_induct)
  case Nil
  then show ?case by simp
next
  case (snoc q qs)
  have len: "length (fold step qs a) = length a"
    by (rule fold_preserves [where P = "\<lambda>t. length t = length a"]) (simp_all add: step)
  have e: "fold step (qs @ [q]) a = (fold step qs a)[pos q := v q]"
    by (simp only: fold_snoc step [of q])
  show ?case
  proof (cases "k = q")
    case True
    then show ?thesis unfolding e using snoc.prems(4) len by simp
  next
    case False
    then have kq: "k \<in> set qs" using snoc.prems(3) by simp
    have "q \<notin> set qs" using snoc.prems(1) by simp
    then have ne: "pos q \<noteq> pos k"
      using snoc.prems(2) kq False by (auto simp: inj_on_def)
    have "fold step qs a ! pos k = v k"
      using snoc.IH snoc.prems kq by (simp add: inj_on_def)
    then show ?thesis unfolding e using ne by simp
  qed
qed

lemma six_index_inj: "inj_on (\<lambda>p. snd p * h + (h - 1 - fst p)) (set (raster w h))"
proof (rule inj_onI)
  fix p q assume p: "p \<in> set (raster w h)" and q: "q \<in> set (raster w h)"
    and e: "snd p * h + (h - 1 - fst p) = snd q * h + (h - 1 - fst q)"
  from p q have lt: "fst p < h" "fst q < h" by (auto simp: set_raster)
  then have lt': "h - 1 - fst p < h" "h - 1 - fst q < h" by simp_all
  have "(snd p * h + (h - 1 - fst p)) div h = (snd q * h + (h - 1 - fst q)) div h"
    and "(snd p * h + (h - 1 - fst p)) mod h = (snd q * h + (h - 1 - fst q)) mod h"
    using e by simp_all
  with lt' have "snd p = snd q" "h - 1 - fst p = h - 1 - fst q" by simp_all
  with lt have "fst p = fst q" "snd p = snd q" by simp_all
  then show "p = q" by (simp add: prod_eq_iff)
qed

lemma six_index_bound: "y < h \<Longrightarrow> x < w \<Longrightarrow> x * h + (h - 1 - y) < w * h" for x y w h :: nat
proof -
  assume y: "y < h" and x: "x < w"
  have "h - 1 - y < h" using y by arith
  then have "x * h + (h - 1 - y) < x * h + h" by (rule add_strict_left_mono)
  also have "\<dots> = Suc x * h" by simp
  also have "\<dots> \<le> w * h" using x by (intro mult_le_mono1) simp
  finally show ?thesis .
qed

lemma packSixColor_nth:
  assumes "y < h" "x < w"
  shows "fold (packSixColor w h d mode) (raster w h) (replicate (w * h) 0) ! (x * h + (h - 1 - y))
    = item_value (closestAt d ((y * w + x) * 4) mode)"
proof -
  have k: "(y, x) \<in> set (raster w h)" using assms by (simp add: set_raster)
  have b: "snd (y, x) * h + (h - 1 - fst (y, x)) < length (replicate (w * h) (0::8 word))"
    using six_index_bound [OF assms] by simp
  have "fold (packSixColor w h d mode) (raster w h) (replicate (w * h) 0)
          ! (snd (y, x) * h + (h - 1 - fst (y, x)))
      = item_value (closestAt d ((fst (y, x) * w + snd (y, x)) * 4) mode)"
    by (rule fold_update_nth [where pos = "\<lambda>p. snd p * h + (h - 1 - fst p)"
          and v = "\<lambda>p. item_value (closestAt d ((fst p * w + snd p) * 4) mode)",
          OF _ distinct_raster six_index_inj k b])
      (simp add: packSixColor_def Let_def split: prod.splits)
  then show ?thesis by simp
qed

text \<open>OR-packers: a bit of the result is set iff it was set before or some step set it.\<close>

lemma or_fold_bit:
  assumes step: "\<And>p a. step p a = orByte a (bi p) (v p)"
  shows "B < length a \<Longrightarrow>
    bit (fold step ks a ! B) n \<longleftrightarrow> bit (a ! B) n \<or> (\<exists>k\<in>set ks. bi k = B \<and> bit (v k) n)"
proof (induction ks arbitrary: a)
  case Nil
  then show ?case by simp
next
  case (Cons k ks)
  have l: "B < length (step k a)" using Cons.prems by (simp add: step orByte_def)
  have "bit (step k a ! B) n \<longleftrightarrow> bit (a ! B) n \<or> (bi k = B \<and> bit (v k) n)"
    using Cons.prems by (cases "bi k = B") (simp_all add: step orByte_def bit_or_iff)
  with Cons.IH [OF l] show ?case by auto
qed

lemma labL_yOf: "labL r g b = 116 * labCurve (yOf r g b) - 16"
  by (simp add: labL_def rgbToLab_def yOf_def Let_def)

lemma gammaDecode_0: "gammaDecode 0 = 0"
  by (simp add: gammaDecode_def)

lemma gammaDecode_1: "gammaDecode 1 = 1"
  by (simp add: gammaDecode_def)

lemma gammaDecode_nonneg: "0 \<le> c \<Longrightarrow> 0 \<le> gammaDecode c"
  by (simp add: gammaDecode_def)

lemma gammaDecode_upper:
  assumes "0.04045 < c" "c \<le> 1"
  shows "gammaDecode c \<le> ((c + 0.055) / 1.055)\<^sup>2"
proof -
  let ?u = "(c + 0.055) / 1.055"
  have u: "0 \<le> ?u" "?u \<le> 1" using assms by simp_all
  have "?u powr 2.4 \<le> ?u powr 2"
    by (rule powr_mono' [OF _ u]) simp
  then show ?thesis using assms u by (simp add: gammaDecode_def)
qed

lemma gammaDecode_lower:
  assumes "0.04045 < c" "c \<le> 1"
  shows "((c + 0.055) / 1.055) ^ 3 \<le> gammaDecode c"
proof -
  let ?u = "(c + 0.055) / 1.055"
  have u: "0 \<le> ?u" "?u \<le> 1" using assms by simp_all
  have "?u powr 3 \<le> ?u powr 2.4"
    by (rule powr_mono' [OF _ u]) simp
  then show ?thesis using assms u by (simp add: gammaDecode_def)
qed

lemma yOf_black: "yOf 0 0 0 = 0"
  by (simp add: yOf_def gammaDecode_0)

lemma yOf_white: "yOf 255 255 255 = 1"
  by (simp add: yOf_def gammaDecode_1)

lemma yOf_red: "yOf 255 0 0 = 0.2126"
  by (simp add: yOf_def gammaDecode_1 gammaDecode_0)

lemma yOf_yellow: "yOf 255 255 0 = 0.9278"
  by (simp add: yOf_def gammaDecode_1 gammaDecode_0)

lemma yOf_blue: "yOf 0 0 255 = 0.0722"
  by (simp add: yOf_def gammaDecode_1 gammaDecode_0)

lemma yOf_green: "0.38 < yOf 41 204 20" "yOf 41 204 20 < 0.5"
proof -
  have r0: "0 \<le> gammaDecode (41 / 255)" and b0: "0 \<le> gammaDecode (20 / 255)"
    by (simp_all add: gammaDecode_nonneg)
  have r1: "gammaDecode (41 / 255) \<le> ((41 / 255 + 0.055) / 1.055)\<^sup>2"
    by (rule gammaDecode_upper) simp_all
  have b1: "gammaDecode (20 / 255) \<le> ((20 / 255 + 0.055) / 1.055)\<^sup>2"
    by (rule gammaDecode_upper) simp_all
  have g1: "gammaDecode (204 / 255) \<le> ((204 / 255 + 0.055) / 1.055)\<^sup>2"
    by (rule gammaDecode_upper) simp_all
  have g0: "((204 / 255 + 0.055) / 1.055) ^ 3 \<le> gammaDecode (204 / 255)"
    by (rule gammaDecode_lower) simp_all
  have r1': "gammaDecode (41 / 255) \<le> 0.042" using r1 by (simp add: power2_eq_square)
  have b1': "gammaDecode (20 / 255) \<le> 0.017" using b1 by (simp add: power2_eq_square)
  have g1': "gammaDecode (204 / 255) \<le> 0.657" using g1 by (simp add: power2_eq_square)
  have g0': "0.532 \<le> gammaDecode (204 / 255)" using g0 by (simp add: power3_eq_cube)
  show "0.38 < yOf 41 204 20" using r0 b0 g0' by (simp add: yOf_def)
  show "yOf 41 204 20 < 0.5" using r1' b1' g1' by (simp add: yOf_def)
qed

lemma labCurve_0: "labCurve 0 = 16 / 116"
  by (simp add: labCurve_def)

lemma labCurve_mono: "0.008856 < s \<Longrightarrow> s < t \<Longrightarrow> labCurve s < labCurve t"
  by (simp add: labCurve_def powr_less_mono2)

lemma labCurve_above_0: "0.008856 < t \<Longrightarrow> labCurve 0 < labCurve t"
proof -
  assume t: "0.008856 < t"
  have "(16 / 116 :: real) = ((16 / 116) ^ 3) powr (1 / 3)"
    by (simp add: powr_powr powr_numeral [symmetric] del: powr_numeral)
  also have "\<dots> < t powr (1 / 3)"
    by (rule powr_less_mono2) (use t in \<open>simp_all add: power3_eq_cube\<close>)
  finally show ?thesis using t by (simp add: labCurve_def)
qed

lemma labL_order:
  "labL 0 0 0 < labL 0 0 255" "labL 0 0 255 < labL 255 0 0" "labL 255 0 0 < labL 41 204 20"
  "labL 41 204 20 < labL 255 255 0" "labL 255 255 0 < labL 255 255 255"
proof -
  show "labL 0 0 0 < labL 0 0 255"
    using labCurve_above_0 [of "0.0722"] by (simp add: labL_yOf yOf_black yOf_blue)
  show "labL 0 0 255 < labL 255 0 0"
    using labCurve_mono [of "0.0722" "0.2126"] by (simp add: labL_yOf yOf_red yOf_blue)
  show "labL 255 0 0 < labL 41 204 20"
    using labCurve_mono [of "0.2126" "yOf 41 204 20"] yOf_green by (simp add: labL_yOf yOf_red)
  show "labL 41 204 20 < labL 255 255 0"
    using labCurve_mono [of "yOf 41 204 20" "0.9278"] yOf_green by (simp add: labL_yOf yOf_yellow)
  show "labL 255 255 0 < labL 255 255 255"
    using labCurve_mono [of "0.9278" 1] by (simp add: labL_yOf yOf_yellow yOf_white)
qed


lemma labL_distinct:
  "labL 0 0 0 \<noteq> labL 0 0 255"
  "labL 0 0 0 \<noteq> labL 255 0 0"
  "labL 0 0 0 \<noteq> labL 41 204 20"
  "labL 0 0 0 \<noteq> labL 255 255 0"
  "labL 0 0 0 \<noteq> labL 255 255 255"
  "labL 0 0 255 \<noteq> labL 0 0 0"
  "labL 0 0 255 \<noteq> labL 255 0 0"
  "labL 0 0 255 \<noteq> labL 41 204 20"
  "labL 0 0 255 \<noteq> labL 255 255 0"
  "labL 0 0 255 \<noteq> labL 255 255 255"
  "labL 255 0 0 \<noteq> labL 0 0 0"
  "labL 255 0 0 \<noteq> labL 0 0 255"
  "labL 255 0 0 \<noteq> labL 41 204 20"
  "labL 255 0 0 \<noteq> labL 255 255 0"
  "labL 255 0 0 \<noteq> labL 255 255 255"
  "labL 41 204 20 \<noteq> labL 0 0 0"
  "labL 41 204 20 \<noteq> labL 0 0 255"
  "labL 41 204 20 \<noteq> labL 255 0 0"
  "labL 41 204 20 \<noteq> labL 255 255 0"
  "labL 41 204 20 \<noteq> labL 255 255 255"
  "labL 255 255 0 \<noteq> labL 0 0 0"
  "labL 255 255 0 \<noteq> labL 0 0 255"
  "labL 255 255 0 \<noteq> labL 255 0 0"
  "labL 255 255 0 \<noteq> labL 41 204 20"
  "labL 255 255 0 \<noteq> labL 255 255 255"
  "labL 255 255 255 \<noteq> labL 0 0 0"
  "labL 255 255 255 \<noteq> labL 0 0 255"
  "labL 255 255 255 \<noteq> labL 255 0 0"
  "labL 255 255 255 \<noteq> labL 41 204 20"
  "labL 255 255 255 \<noteq> labL 255 255 0"
  using labL_order by linarith+

lemma labDistance_self: "labDistance l l = 0"
  by (simp add: labDistance_def)

lemma labDistance_nonneg: "0 \<le> labDistance l1 l2"
  by (simp add: labDistance_def Let_def mult.assoc)

lemma labDistance_zero_l:
  assumes "labDistance l1 l2 = 0"
  shows "lab_l l1 = lab_l l2"
proof -
  let ?dl = "lab_l l1 - lab_l l2" and ?da = "lab_a l1 - lab_a l2" and ?db = "lab_b l1 - lab_b l2"
  have nn: "0 \<le> ?dl * ?dl" "0 \<le> ?da * ?da" "0 \<le> ?db * ?db" by simp_all
  then have "0 \<le> 0.2 * (?dl * ?dl) + 3 * (?da * ?da) + 3 * (?db * ?db)" by simp
  moreover have "sqrt (0.2 * (?dl * ?dl) + 3 * (?da * ?da) + 3 * (?db * ?db)) = 0"
    using assms by (simp add: labDistance_def Let_def mult.assoc)
  ultimately have "0.2 * (?dl * ?dl) + 3 * (?da * ?da) + 3 * (?db * ?db) = 0" by simp
  with nn have "?dl * ?dl = 0" by linarith
  then show ?thesis by simp
qed

lemma search_self:
  assumes c: "c \<in> set ps"
    and u: "\<forall>c'\<in>set ps. labL (real (item_r c')) (real (item_g c')) (real (item_b c'))
              = labL (real (item_r c)) (real (item_g c)) (real (item_b c)) \<longrightarrow> c' = c"
  shows "snd (fold (closestStep (rgbToLab (real (item_r c)) (real (item_g c)) (real (item_b c))))
            ps (None, c0)) = c"
proof -
  let ?r = "real (item_r c)" and ?g = "real (item_g c)" and ?b = "real (item_b c)"
  let ?d = "entryDistance ?r ?g ?b"
  have ne: "ps \<noteq> []" using c by auto
  from closestStep_snoc_firstMinimal [OF ne, of ?r ?g ?b c0]
  obtain i where fm: "firstMinimal ?d ps i"
    and st: "fold (closestStep (rgbToLab ?r ?g ?b)) ps (None, c0) = (Some (?d (ps ! i)), ps ! i)"
    by blast
  from c obtain j where j: "j < length ps" "ps ! j = c" by (auto simp: in_set_conv_nth)
  have "?d (ps ! i) \<le> ?d (ps ! j)" using fm j(1) by (simp add: firstMinimal_def)
  also have "\<dots> = 0" using j by (simp add: entryDistance_def labDistance_self)
  finally have "?d (ps ! i) = 0"
    using labDistance_nonneg [of "rgbToLab ?r ?g ?b"] by (simp add: entryDistance_def order.antisym)
  then have "lab_l (rgbToLab ?r ?g ?b)
      = lab_l (rgbToLab (real (item_r (ps ! i))) (real (item_g (ps ! i))) (real (item_b (ps ! i))))"
    unfolding entryDistance_def by (rule labDistance_zero_l)
  moreover have "ps ! i \<in> set ps" using fm by (simp add: firstMinimal_def)
  ultimately have "ps ! i = c" using u by (simp add: labL_def)
  with st show ?thesis by simp
qed

lemma closest_self_four:
  assumes "c \<in> set fourColorPalette"
  shows "findClosestColor (real (item_r c)) (real (item_g c)) (real (item_b c)) FourColor = c"
proof -
  have "\<forall>c'\<in>set fourColorPalette. labL (real (item_r c')) (real (item_g c')) (real (item_b c'))
              = labL (real (item_r c)) (real (item_g c)) (real (item_b c)) \<longrightarrow> c' = c"
    using assms by (auto simp: fourColorPalette_def labL_distinct)
  from search_self [OF assms this] show ?thesis
    by (simp add: findClosestColor_def selectPalette_def Let_def)
qed

lemma closest_self_six:
  assumes "c \<in> set rgbPalette"
  shows "findClosestColor (real (item_r c)) (real (item_g c)) (real (item_b c)) SixColor = c"
proof (cases "real (item_r c) < 50 \<and> real (item_g c) < 150 \<and> real (item_b c) > 100")
  case True
  then have "c = rgbPalette ! 2" using assms by (auto simp: rgbPalette_def)
  with True show ?thesis by (simp add: findClosestColor_def Let_def)
next
  case False
  have "\<forall>c'\<in>set rgbPalette. labL (real (item_r c')) (real (item_g c')) (real (item_b c'))
              = labL (real (item_r c)) (real (item_g c)) (real (item_b c)) \<longrightarrow> c' = c"
    using assms by (auto simp: rgbPalette_def labL_distinct)
  from search_self [OF assms this] False show ?thesis
    by (auto simp: findClosestColor_def selectPalette_def Let_def)
qed

lemma pixel_number_bound: "y < h \<Longrightarrow> x < w \<Longrightarrow> y * w + x < w * h" for x y w h :: nat
proof -
  assume y: "y < h" and x: "x < w"
  have "y * w + x < y * w + w" using x by simp
  also have "\<dots> = Suc y * w" by simp
  also have "\<dots> \<le> h * w" using y by (intro mult_le_mono1) simp
  finally show ?thesis by (simp add: mult.commute)
qed

lemma quantized_pixel:
  assumes "paletteQuantized q mode" "y < height q" "x < width q"
  shows "pixelAt (data q) (y * width q + x) \<in> set (quantizedColors mode)"
  using assms pixel_number_bound [of y "height q" x "width q"] unfolding paletteQuantized_def by blast

lemma opaque_pixel:
  assumes "opaque q" "y < height q" "x < width q"
  shows "data q ! ((y * width q + x) * 4 + 3) = 255"
  using assms pixel_number_bound [of y "height q" x "width q"] unfolding opaque_def by blast

lemma closestAt_six:
  assumes "pixelAt d p \<in> set (quantizedColors SixColor)"
  shows "closestAt d (p * 4) SixColor \<in> set rgbPalette
    \<and> rgbOf (closestAt d (p * 4) SixColor) = pixelAt d p"
proof -
  from assms obtain c where c: "c \<in> set rgbPalette" "rgbOf c = pixelAt d p"
    by (auto simp: quantizedColors_def)
  then have "closestAt d (p * 4) SixColor
      = findClosestColor (real (item_r c)) (real (item_g c)) (real (item_b c)) SixColor"
    by (simp add: closestAt_def rgbOf_def pixelAt_def)
  with closest_self_six [OF c(1)] c show ?thesis by simp
qed

lemma closestAt_four:
  assumes "pixelAt d p \<in> set (quantizedColors FourColor)"
  shows "closestAt d (p * 4) FourColor \<in> set fourColorPalette
    \<and> rgbOf (closestAt d (p * 4) FourColor) = pixelAt d p"
proof -
  from assms obtain c where c: "c \<in> set fourColorPalette" "rgbOf c = pixelAt d p"
    by (auto simp: quantizedColors_def)
  then have "closestAt d (p * 4) FourColor
      = findClosestColor (real (item_r c)) (real (item_g c)) (real (item_b c)) FourColor"
    by (simp add: closestAt_def rgbOf_def pixelAt_def)
  with closest_self_four [OF c(1)] c show ?thesis by simp
qed

lemma find_value_six:
  "c \<in> set rgbPalette \<Longrightarrow> find (\<lambda>c'. Some (item_value c') = Some (item_value c)) rgbPalette = Some c"
  by (auto simp: rgbPalette_def)

lemma roundtrip_six:
  assumes wf: "wellFormed q" and pq: "paletteQuantized q SixColor" and op: "opaque q"
  shows "decodeProcessedData (processImageData q SixColor) (width q) (height q) SixColor = Some q"
proof -
  let ?w = "width q" and ?h = "height q" and ?d = "data q"
  let ?pd = "fold (packSixColor ?w ?h ?d SixColor) (raster ?w ?h) (replicate (?w * ?h) 0)"
  let ?col = "\<lambda>p. (case find (\<lambda>c. Some (item_value c) = byteAt ?pd (snd p * ?h + (?h - 1 - fst p))) rgbPalette of
                       Some c \<Rightarrow> c | None \<Rightarrow> rgbPalette ! 5)"
  have len: "length ?d = 4 * ?w * ?h" using wf by (simp add: wellFormed_def)
  have lpd: "length ?pd = ?w * ?h" by (simp add: length_fold_six)
  have px: "item_r (?col (y, x)) = ?d ! ((y * ?w + x) * 4)
      \<and> item_g (?col (y, x)) = ?d ! ((y * ?w + x) * 4 + 1)
      \<and> item_b (?col (y, x)) = ?d ! ((y * ?w + x) * 4 + 2)
      \<and> ?d ! ((y * ?w + x) * 4 + 3) = 255" if y: "y < ?h" and x: "x < ?w" for y x
  proof -
    let ?c = "closestAt ?d ((y * ?w + x) * 4) SixColor"
    have c: "?c \<in> set rgbPalette" "rgbOf ?c = pixelAt ?d (y * ?w + x)"
      using closestAt_six [OF quantized_pixel [OF pq y x]] by simp_all
    have "byteAt ?pd (x * ?h + (?h - 1 - y)) = Some (item_value ?c)"
      using six_index_bound [OF y x] packSixColor_nth [OF y x, of ?d SixColor]
      by (simp add: byteAt_def lpd)
    then have "?col (y, x) = ?c" using find_value_six [OF c(1)] by simp
    with c(2) opaque_pixel [OF op y x] show ?thesis by (simp add: rgbOf_def pixelAt_def)
  qed
  have "fold (decodeSixColor ?w ?h ?pd) (raster ?w ?h) (replicate (4 * ?w * ?h) 0) = ?d"
    by (rule decode_fold_eq [where R = "\<lambda>p. item_r (?col p)" and G = "\<lambda>p. item_g (?col p)"
          and B = "\<lambda>p. item_b (?col p)", OF _ len px])
      (simp_all add: decodeSixColor_def Let_def split: prod.splits)
  then show ?thesis using wf
    by (simp add: decodeProcessedData_def processImageData_def wellFormed_def Let_def)
qed

lemma plane_fold_bit:
  assumes other: "\<And>q a B n. B < length a \<Longrightarrow> n < 8 \<Longrightarrow> (B, n) \<noteq> (bi q, sh q) \<Longrightarrow>
        bit (step q a ! B) n = bit (a ! B) n"
    and here: "\<And>q a. bi q < length a \<Longrightarrow> sh q < 8 \<Longrightarrow> \<not> bit (a ! bi q) (sh q) \<Longrightarrow>
        bit (step q a ! bi q) (sh q) = b q"
    and len: "\<And>q a. length (step q a) = length a"
    and "distinct ks" "inj_on (\<lambda>k. (bi k, sh k)) (set ks)" "\<forall>k\<in>set ks. bi k < n0 \<and> sh k < 8"
  shows "B < n0 \<Longrightarrow> n < 8 \<Longrightarrow>
    bit (fold step ks (replicate n0 (0::8 word)) ! B) n \<longleftrightarrow> (\<exists>k\<in>set ks. bi k = B \<and> sh k = n \<and> b k)"
  using assms(4-)
proof (induction ks arbitrary: B n rule: rev_induct)
  case Nil
  then show ?case by simp
next
  case (snoc q qs)
  let ?a = "fold step qs (replicate n0 0)"
  have la: "length ?a = n0"
    by (rule fold_preserves [where P = "\<lambda>t. length t = n0"]) (simp_all add: len)
  have e: "fold step (qs @ [q]) (replicate n0 0) = step q ?a" by simp
  have ih: "bit (?a ! B') n' \<longleftrightarrow> (\<exists>k\<in>set qs. bi k = B' \<and> sh k = n' \<and> b k)"
    if "B' < n0" "n' < 8" for B' n'
    using snoc.IH [OF that] snoc.prems by (simp add: inj_on_def)
  have q: "bi q < n0" "sh q < 8" using snoc.prems(5) by simp_all
  have fresh: "\<not> (\<exists>k\<in>set qs. bi k = bi q \<and> sh k = sh q)"
    using snoc.prems(3,4) by (auto simp: inj_on_def)
  show ?case
  proof (cases "(B, n) = (bi q, sh q)")
    case True
    have "\<not> bit (?a ! bi q) (sh q)" using ih [OF q] fresh by blast
    then have "bit (step q ?a ! bi q) (sh q) = b q" using here q la by simp
    then show ?thesis unfolding e using True fresh by auto
  next
    case False
    have "bit (step q ?a ! B) n = bit (?a ! B) n"
      using other [of B ?a n q] snoc.prems(1,2) la False by simp
    then show ?thesis unfolding e using ih [OF snoc.prems(1,2)] False by auto
  qed
qed

lemma plane_fold_bit_at:
  assumes other: "\<And>q a B n. B < length a \<Longrightarrow> n < 8 \<Longrightarrow> (B, n) \<noteq> (bi q, sh q) \<Longrightarrow>
        bit (step q a ! B) n = bit (a ! B) n"
    and here: "\<And>q a. bi q < length a \<Longrightarrow> sh q < 8 \<Longrightarrow> \<not> bit (a ! bi q) (sh q) \<Longrightarrow>
        bit (step q a ! bi q) (sh q) = b q"
    and len: "\<And>q a. length (step q a) = length a"
    and d: "distinct ks" and inj: "inj_on (\<lambda>k. (bi k, sh k)) (set ks)"
    and bd: "\<forall>k\<in>set ks. bi k < n0 \<and> sh k < 8"
    and k: "k \<in> set ks"
  shows "bit (fold step ks (replicate n0 (0::8 word)) ! bi k) (sh k) \<longleftrightarrow> b k"
proof -
  have "bit (fold step ks (replicate n0 (0::8 word)) ! bi k) (sh k)
      \<longleftrightarrow> (\<exists>k'\<in>set ks. bi k' = bi k \<and> sh k' = sh k \<and> b k')"
    using plane_fold_bit [of bi sh step b ks n0 "bi k" "sh k", OF other here len d inj bd] bd k
    by blast
  also have "\<dots> \<longleftrightarrow> b k" using inj k by (auto simp: inj_on_def)
  finally show ?thesis .
qed

lemma orByte_bit_other:
  "B < length a \<Longrightarrow> (B, n) \<noteq> (i, s) \<Longrightarrow> bit (orByte a i (push_bit s (of_bool c)) ! B) n = bit (a ! B) n"
  by (cases "i = B") (auto simp: orByte_def bit_or_iff bit_push_bit_iff bit_of_bool_iff)

lemma orByte_bit_here:
  "i < length a \<Longrightarrow> s < 8 \<Longrightarrow> \<not> bit (a ! i) s \<Longrightarrow> bit (orByte a i (push_bit s (of_bool c)) ! i) s = c"
  by (auto simp: orByte_def bit_or_iff bit_push_bit_iff bit_of_bool_iff)

lemma clearBits_bit_other:
  "B < length a \<Longrightarrow> n < 8 \<Longrightarrow> (B, n) \<noteq> (i, s) \<Longrightarrow> bit (clearBits a i (push_bit s 1) ! B) n = bit (a ! B) n"
  by (cases "i = B") (auto simp: clearBits_def bit_simps)

lemma clearBits_bit_here:
  "i < length a \<Longrightarrow> s < 8 \<Longrightarrow> \<not> bit (clearBits a i (push_bit s 1) ! i) s"
  by (auto simp: clearBits_def bit_simps)

lemma shiftMask_bit:
  "B < length a \<Longrightarrow> (shiftMask a B s 1 \<noteq> 0) = bit (a ! B) s"
  by (simp add: shiftMask_def byteAt_def and_one_eq bit_iff_odd_drop_bit odd_iff_mod_2_eq_one)

lemma div8_less: "x < w \<Longrightarrow> x div 8 < (w + 7) div 8" for x w :: nat
proof -
  assume x: "x < w"
  then have "w + 7 = (w - 1) + 8" by simp
  then have "(w + 7) div 8 = (w - 1) div 8 + 1" by (simp only: div_add_self2)
  moreover have "x div 8 \<le> (w - 1) div 8" using x by (intro div_le_mono) simp
  ultimately show ?thesis by simp
qed

lemma shift_eq_mod_eq:
  fixes x x' :: nat
  assumes "7 - x mod 8 = 7 - x' mod 8"
  shows "x mod 8 = x' mod 8"
proof -
  define r where "r = x mod 8"
  define r' where "r' = x' mod 8"
  have "r < 8" "r' < 8" by (simp_all add: r_def r'_def)
  moreover have "7 - r = 7 - r'" using assms by (simp add: r_def r'_def)
  ultimately have "r = r'" by arith
  then show ?thesis by (simp add: r_def r'_def)
qed

lemma plane_index_inj:
  "inj_on (\<lambda>k. (fst k * ((w + 7) div 8) + snd k div 8, 7 - snd k mod 8)) (set (raster w h))"
proof (rule inj_onI)
  fix p q assume p: "p \<in> set (raster w h)" and q: "q \<in> set (raster w h)"
    and e: "(fst p * ((w + 7) div 8) + snd p div 8, 7 - snd p mod 8)
          = (fst q * ((w + 7) div 8) + snd q div 8, 7 - snd q mod 8)"
  let ?bw = "(w + 7) div 8"
  from p q have "snd p < w" "snd q < w" by (auto simp: set_raster)
  then have lt: "snd p div 8 < ?bw" "snd q div 8 < ?bw" by (simp_all only: div8_less)
  from e have e1: "fst p * ?bw + snd p div 8 = fst q * ?bw + snd q div 8"
    and e2: "7 - snd p mod 8 = 7 - snd q mod 8" by simp_all
  have "(fst p * ?bw + snd p div 8) div ?bw = (fst q * ?bw + snd q div 8) div ?bw"
    and "(fst p * ?bw + snd p div 8) mod ?bw = (fst q * ?bw + snd q div 8) mod ?bw"
    using e1 by simp_all
  with lt have a: "fst p = fst q" "snd p div 8 = snd q div 8" by simp_all
  have m: "snd p mod 8 = snd q mod 8" using e2 by (rule shift_eq_mod_eq)
  have "snd p = snd p div 8 * 8 + snd p mod 8" by simp
  also have "\<dots> = snd q div 8 * 8 + snd q mod 8" by (simp only: a(2) m)
  also have "\<dots> = snd q" by simp
  finally have "snd p = snd q" .
  with a(1) show "p = q" by (simp add: prod_eq_iff)
qed

lemma plane_index_bound:
  "\<forall>k\<in>set (raster w h). fst k * ((w + 7) div 8) + snd k div 8 < ((w + 7) div 8) * h
      \<and> 7 - snd k mod 8 < (8::nat)"
proof
  fix k assume "k \<in> set (raster w h)"
  then have y: "fst k < h" and "snd k < w" by (auto simp: set_raster)
  then have x: "snd k div 8 < (w + 7) div 8" by (simp only: div8_less)
  have "7 - snd k mod 8 < (8::nat)" by simp
  with pixel_number_bound [OF y x]
  show "fst k * ((w + 7) div 8) + snd k div 8 < ((w + 7) div 8) * h \<and> 7 - snd k mod 8 < (8::nat)"
    by simp
qed

lemma grayscale_black_white:
  assumes "pixelAt d p \<in> set (quantizedColors BlackWhiteColor)"
  shows "(grayscaleAt d (p * 4) \<ge> 140) = (d ! (p * 4) = 255)"
    and "d ! (p * 4) = 255 \<or> d ! (p * 4) = 0"
    and "d ! (p * 4 + 1) = d ! (p * 4)" and "d ! (p * 4 + 2) = d ! (p * 4)"
  using assms by (auto simp: quantizedColors_def pixelAt_def grayscaleAt_def grey_of_white grey_of_black)

lemma roundtrip_black_white:
  assumes wf: "wellFormed q" and pq: "paletteQuantized q BlackWhiteColor" and op: "opaque q"
  shows "decodeProcessedData (processImageData q BlackWhiteColor) (width q) (height q) BlackWhiteColor
    = Some q"
proof -
  let ?w = "width q" and ?h = "height q" and ?d = "data q"
  let ?bw = "(?w + 7) div 8"
  let ?bi = "\<lambda>k. fst k * ?bw + snd k div 8" and ?sh = "\<lambda>k. 7 - snd k mod 8"
  let ?b = "\<lambda>k. grayscaleAt ?d ((fst k * ?w + snd k) * 4) \<ge> 140"
  let ?pd = "fold (packBlackWhite ?w ?d) (raster ?w ?h) (replicate (?bw * ?h) 0)"
  let ?v = "\<lambda>p. if shiftMask ?pd (?bi p) (?sh p) 1 \<noteq> 0 then 255 else (0::nat)"
  have step: "packBlackWhite ?w ?d k a = orByte a (?bi k) (push_bit (?sh k) (of_bool (?b k)))" for k a
    by (simp add: packBlackWhite_def Let_def ceil_div8 split: prod.splits)
  have other: "bit (packBlackWhite ?w ?d k a ! B) n = bit (a ! B) n"
    if "B < length a" "n < 8" "(B, n) \<noteq> (?bi k, ?sh k)" for k a B n
    unfolding step using that(1,3) by (rule orByte_bit_other)
  have here: "bit (packBlackWhite ?w ?d k a ! ?bi k) (?sh k) = ?b k"
    if "?bi k < length a" "?sh k < 8" "\<not> bit (a ! ?bi k) (?sh k)" for k a
    unfolding step using that by (rule orByte_bit_here)
  have plen: "length (packBlackWhite ?w ?d k a) = length a" for k a
    unfolding step by (simp add: orByte_def)
  have len: "length ?d = 4 * ?w * ?h" using wf by (simp add: wellFormed_def)
  have lpd: "length ?pd = ?bw * ?h" by (simp add: length_fold_bw)
  have px: "?v (y, x) = ?d ! ((y * ?w + x) * 4) \<and> ?v (y, x) = ?d ! ((y * ?w + x) * 4 + 1)
      \<and> ?v (y, x) = ?d ! ((y * ?w + x) * 4 + 2) \<and> ?d ! ((y * ?w + x) * 4 + 3) = 255"
    if y: "y < ?h" and x: "x < ?w" for y x
  proof -
    have k: "(y, x) \<in> set (raster ?w ?h)" using x y by (simp add: set_raster)
    have B: "?bi (y, x) < length ?pd"
      using plane_index_bound [THEN bspec, OF k] by (simp only: lpd)
    have "bit (?pd ! ?bi (y, x)) (?sh (y, x)) \<longleftrightarrow> ?b (y, x)"
      by (rule plane_fold_bit_at [where step = "packBlackWhite ?w ?d" and bi = ?bi and sh = ?sh
            and b = ?b, OF other here plen distinct_raster plane_index_inj plane_index_bound k])
    then have "(shiftMask ?pd (?bi (y, x)) (?sh (y, x)) 1 \<noteq> 0) = ?b (y, x)"
      using shiftMask_bit [OF B] by simp
    with grayscale_black_white [OF quantized_pixel [OF pq y x]] opaque_pixel [OF op y x]
    show ?thesis by auto
  qed
  have "fold (decodeBlackWhite ?w ?pd) (raster ?w ?h) (replicate (4 * ?w * ?h) 0) = ?d"
    by (rule decode_fold_eq [where R = ?v and G = ?v and B = ?v, OF _ len px])
      (simp_all add: decodeBlackWhite_def Let_def ceil_div8 split: prod.splits)
  then show ?thesis using wf
    by (simp add: decodeProcessedData_def processImageData_def wellFormed_def Let_def ceil_div8)
qed

lemma packThreeColor_planes:
  "fold (packThreeColor w d) ks (a1, a2)
     = (fold (planeStep (bwBit w d) w) ks a1, fold (planeStep (redBit w d) w) ks a2)"
proof (induction ks arbitrary: a1 a2)
  case Nil
  then show ?case by simp
next
  case (Cons k ks)
  have "packThreeColor w d k (a1, a2)
      = (planeStep (bwBit w d) w k a1, planeStep (redBit w d) w k a2)"
    by (simp add: packThreeColor_def planeStep_def bwBit_def redBit_def Let_def ceil_div8
        split: prod.splits)
  then show ?case using Cons.IH by simp
qed

lemma orByte_one_bit_other:
  "B < length a \<Longrightarrow> (B, n) \<noteq> (i, s) \<Longrightarrow> bit (orByte a i (push_bit s 1) ! B) n = bit (a ! B) n"
  using orByte_bit_other [of B a n i s True] by simp

lemma orByte_one_bit_here:
  "i < length a \<Longrightarrow> s < 8 \<Longrightarrow> bit (orByte a i (push_bit s 1) ! i) s"
  by (auto simp: orByte_def bit_simps)

lemma planeStep_other:
  "B < length a \<Longrightarrow> n < 8 \<Longrightarrow> (B, n) \<noteq> (fst k * ((w + 7) div 8) + snd k div 8, 7 - snd k mod 8)
     \<Longrightarrow> bit (planeStep b w k a ! B) n = bit (a ! B) n"
  by (simp add: planeStep_def orByte_one_bit_other clearBits_bit_other del: push_bit_of_1)

lemma planeStep_here:
  "fst k * ((w + 7) div 8) + snd k div 8 < length a \<Longrightarrow> 7 - snd k mod 8 < 8 \<Longrightarrow>
     bit (planeStep b w k a ! (fst k * ((w + 7) div 8) + snd k div 8)) (7 - snd k mod 8) = b k"
  by (simp add: planeStep_def orByte_one_bit_here clearBits_bit_here del: push_bit_of_1)

lemma length_planeStep: "length (planeStep b w k a) = length a"
  by (simp add: planeStep_def orByte_def clearBits_def)

lemma plane_bit:
  assumes "y < h" "x < w"
  shows "(y * ((w + 7) div 8) + x div 8) < ((w + 7) div 8) * h"
    and "bit (fold (planeStep b w) (raster w h) (replicate (((w + 7) div 8) * h) 0)
               ! (y * ((w + 7) div 8) + x div 8)) (7 - x mod 8) \<longleftrightarrow> b (y, x)"
proof -
  have k: "(y, x) \<in> set (raster w h)" using assms by (simp add: set_raster)
  show "(y * ((w + 7) div 8) + x div 8) < ((w + 7) div 8) * h"
    using plane_index_bound [THEN bspec, OF k] by simp
  have "bit (fold (planeStep b w) (raster w h) (replicate (((w + 7) div 8) * h) 0)
               ! (fst (y, x) * ((w + 7) div 8) + snd (y, x) div 8)) (7 - snd (y, x) mod 8)
      \<longleftrightarrow> b (y, x)"
    by (rule plane_fold_bit_at [where step = "planeStep b w"
          and bi = "\<lambda>k. fst k * ((w + 7) div 8) + snd k div 8" and sh = "\<lambda>k. 7 - snd k mod 8",
          OF planeStep_other planeStep_here length_planeStep distinct_raster plane_index_inj
          plane_index_bound k])
  then show "bit (fold (planeStep b w) (raster w h) (replicate (((w + 7) div 8) * h) 0)
               ! (y * ((w + 7) div 8) + x div 8)) (7 - x mod 8) \<longleftrightarrow> b (y, x)"
    by simp
qed

lemma three_color_pixel:
  assumes "pixelAt d p \<in> set (quantizedColors ThreeColor)"
  shows "(d ! (p * 4) = 0 \<and> d ! (p * 4 + 1) = 0 \<and> d ! (p * 4 + 2) = 0
            \<and> \<not> (grayscaleAt d (p * 4) \<ge> 140))
       \<or> (d ! (p * 4) = 255 \<and> d ! (p * 4 + 1) = 255 \<and> d ! (p * 4 + 2) = 255
            \<and> grayscaleAt d (p * 4) \<ge> 140)
       \<or> (d ! (p * 4) = 255 \<and> d ! (p * 4 + 1) = 0 \<and> d ! (p * 4 + 2) = 0)"
  using assms
  by (auto simp: quantizedColors_def threeColorPalette_def rgbOf_def pixelAt_def grayscaleAt_def
      grey_of_white grey_of_black)

lemma roundtrip_three:
  assumes wf: "wellFormed q" and pq: "paletteQuantized q ThreeColor" and op: "opaque q"
  shows "decodeProcessedData (processImageData q ThreeColor) (width q) (height q) ThreeColor = Some q"
proof -
  let ?w = "width q" and ?h = "height q" and ?d = "data q"
  let ?bw = "(?w + 7) div 8"
  let ?bi = "\<lambda>k. fst k * ?bw + snd k div 8" and ?sh = "\<lambda>k. 7 - snd k mod 8"
  let ?p1 = "fold (planeStep (bwBit ?w ?d) ?w) (raster ?w ?h) (replicate (?bw * ?h) 0)"
  let ?p2 = "fold (planeStep (redBit ?w ?d) ?w) (raster ?w ?h) (replicate (?bw * ?h) 0)"
  let ?v = "\<lambda>p. if shiftMask ?p1 (?bi p) (?sh p) 1 \<noteq> 0 then 255 else (0::nat)"
  let ?red = "\<lambda>p. shiftMask ?p2 (?bi p) (?sh p) 1 = 0"
  have len: "length ?d = 4 * ?w * ?h" using wf by (simp add: wellFormed_def)
  have l1: "length ?p1 = ?bw * ?h" and l2: "length ?p2 = ?bw * ?h"
    by (simp_all add: fold_preserves [where P = "\<lambda>t. length t = ?bw * ?h"] length_planeStep)
  have pd: "processImageData q ThreeColor = ?p1 @ ?p2"
    by (simp add: processImageData_def Let_def ceil_div8 packThreeColor_planes mult.commute)
  have px: "(if ?red (y, x) then 255 else ?v (y, x)) = ?d ! ((y * ?w + x) * 4)
      \<and> (if ?red (y, x) then 0 else ?v (y, x)) = ?d ! ((y * ?w + x) * 4 + 1)
      \<and> (if ?red (y, x) then 0 else ?v (y, x)) = ?d ! ((y * ?w + x) * 4 + 2)
      \<and> ?d ! ((y * ?w + x) * 4 + 3) = 255"
    if y: "y < ?h" and x: "x < ?w" for y x
  proof -
    have B: "?bi (y, x) < ?bw * ?h" using plane_bit(1) [OF y x] by simp
    have b1: "(shiftMask ?p1 (?bi (y, x)) (?sh (y, x)) 1 \<noteq> 0) = bwBit ?w ?d (y, x)"
      using shiftMask_bit [of "?bi (y, x)" ?p1 "?sh (y, x)"] B l1
        plane_bit(2) [OF y x, of "bwBit ?w ?d"] by simp
    have b2: "(shiftMask ?p2 (?bi (y, x)) (?sh (y, x)) 1 \<noteq> 0) = redBit ?w ?d (y, x)"
      using shiftMask_bit [of "?bi (y, x)" ?p2 "?sh (y, x)"] B l2
        plane_bit(2) [OF y x, of "redBit ?w ?d"] by simp
    from three_color_pixel [OF quantized_pixel [OF pq y x]] opaque_pixel [OF op y x] b1 b2
    show ?thesis by (auto simp: bwBit_def redBit_def)
  qed
  have "fold (decodeThreeColor ?w ?p1 ?p2) (raster ?w ?h) (replicate (4 * ?w * ?h) 0) = ?d"
    by (rule decode_fold_eq [where R = "\<lambda>p. if ?red p then 255 else ?v p"
          and G = "\<lambda>p. if ?red p then 0 else ?v p" and B = "\<lambda>p. if ?red p then 0 else ?v p",
          OF _ len px])
      (simp_all add: decodeThreeColor_def Let_def ceil_div8 split: prod.splits)
  then show ?thesis using wf l1
    by (simp add: decodeProcessedData_def pd wellFormed_def Let_def ceil_div8)
qed

lemma div4_less: "p < n \<Longrightarrow> p div 4 < (n + 3) div 4" for p n :: nat
proof -
  assume p: "p < n"
  then have "n + 3 = (n - 1) + 4" by simp
  then have "(n + 3) div 4 = (n - 1) div 4 + 1" by (simp only: div_add_self2)
  moreover have "p div 4 \<le> (n - 1) div 4" using p by (intro div_le_mono) simp
  ultimately show ?thesis by simp
qed

lemma shift2_eq_mod_eq:
  fixes x x' :: nat
  assumes "6 - (x mod 4) * 2 = 6 - (x' mod 4) * 2"
  shows "x mod 4 = x' mod 4"
proof -
  define r where "r = x mod 4"
  define r' where "r' = x' mod 4"
  have "r < 4" "r' < 4" by (simp_all add: r_def r'_def)
  moreover have "6 - r * 2 = 6 - r' * 2" using assms by (simp add: r_def r'_def)
  ultimately have "r = r'" by arith
  then show ?thesis by (simp add: r_def r'_def)
qed

lemma four_aligned:
  assumes "4 dvd w \<or> h = 1" "k \<in> set (raster w h)"
  shows "(fst k * w + snd k) mod 4 = snd k mod 4"
proof -
  from assms(1) have "4 dvd fst k * w"
  proof
    assume "4 dvd w" then show ?thesis by simp
  next
    assume "h = 1"
    then have "fst k = 0" using assms(2) by (auto simp: set_raster)
    then show ?thesis by simp
  qed
  then show ?thesis by (simp add: mod_add_left_eq [symmetric] dvd_eq_mod_eq_0 del: mod_add_left_eq)
qed

lemma four_index_inj:
  assumes "4 dvd w \<or> h = 1"
  shows "inj_on (\<lambda>k. ((fst k * w + snd k) div 4, 6 - (snd k mod 4) * 2)) (set (raster w h))"
proof (rule inj_onI)
  fix p q assume p: "p \<in> set (raster w h)" and q: "q \<in> set (raster w h)"
    and e: "((fst p * w + snd p) div 4, 6 - (snd p mod 4) * 2)
          = ((fst q * w + snd q) div 4, 6 - (snd q mod 4) * 2)"
  from e have e1: "(fst p * w + snd p) div 4 = (fst q * w + snd q) div 4"
    and e2: "6 - (snd p mod 4) * 2 = 6 - (snd q mod 4) * 2" by simp_all
  have "snd p mod 4 = snd q mod 4" using e2 by (rule shift2_eq_mod_eq)
  then have m: "(fst p * w + snd p) mod 4 = (fst q * w + snd q) mod 4"
    using four_aligned [OF assms p] four_aligned [OF assms q] by simp
  have "fst p * w + snd p = (fst p * w + snd p) div 4 * 4 + (fst p * w + snd p) mod 4" by simp
  also have "\<dots> = (fst q * w + snd q) div 4 * 4 + (fst q * w + snd q) mod 4" by (simp only: e1 m)
  also have "\<dots> = fst q * w + snd q" by simp
  finally have eq: "fst p * w + snd p = fst q * w + snd q" .
  have inj: "inj_on (\<lambda>p. fst p * w + snd p) (set (raster w h))" by (rule pixel_index_inj)
  have "(\<lambda>p. fst p * w + snd p) p = (\<lambda>p. fst p * w + snd p) q" using eq by simp
  with inj show "p = q" using p q by (rule inj_onD)
qed

lemma bit_three_word: "bit (3::8 word) j \<Longrightarrow> j < 2"
proof -
  assume "bit (3::8 word) j"
  moreover have "(3::8 word) = mask 2" by (simp add: mask_eq_exp_minus_1)
  ultimately have "bit (mask 2 :: 8 word) j" by (simp only:)
  then show ?thesis by (simp add: bit_mask_iff)
qed

lemma bit_two_word: "bit (2::8 word) j \<Longrightarrow> j < 2"
  by (simp add: bit_2_iff)

lemma bit_one_word: "bit (1::8 word) j \<Longrightarrow> j < 2"
  by (simp add: bit_1_iff)

lemma two_bit_value:
  assumes "c \<in> set fourColorPalette" "bit (item_value c) j"
  shows "j < 2"
proof -
  from assms(1) consider "item_value c = 0" | "item_value c = 1" | "item_value c = 3"
    | "item_value c = 2"
    by (auto simp: fourColorPalette_def)
  then show ?thesis
    using assms(2) by cases (simp_all add: bit_three_word bit_two_word bit_one_word)
qed

lemma find_value_four:
  "c \<in> set fourColorPalette \<Longrightarrow>
     find (\<lambda>t. fst t = item_value c) fourColorValues = Some (item_value c, item_r c, item_g c, item_b c)"
  by (auto simp: fourColorPalette_def fourColorValues_def)


lemma bit_three_int: "bit (3::int) j \<longleftrightarrow> j < 2"
proof -
  have e: "(3::int) = mask 2" by (simp add: mask_eq_exp_minus_1)
  show ?thesis unfolding e by (simp add: bit_mask_iff)
qed

lemma bit_three_iff: "bit (3::8 word) j \<longleftrightarrow> j < 2"
  by (auto simp: bit_three_int)

lemma push_bit_bit_at:
  "s \<le> 6 \<Longrightarrow> n < 2 \<Longrightarrow> bit v n \<Longrightarrow> bit (push_bit s (v::8 word)) (s + n)"
  by (simp add: bit_push_bit_iff)

lemma shift2_window:
  fixes x x' n j :: nat
  assumes "n < 2" "6 - (x' mod 4) * 2 \<le> 6 - (x mod 4) * 2 + n"
    and "6 - (x mod 4) * 2 + n - (6 - (x' mod 4) * 2) < 2"
  shows "6 - (x' mod 4) * 2 = 6 - (x mod 4) * 2"
proof -
  define r where "r = x mod 4"
  define r' where "r' = x' mod 4"
  have "r < 4" "r' < 4" by (simp_all add: r_def r'_def)
  moreover have "n < 2" "6 - r' * 2 \<le> 6 - r * 2 + n" "6 - r * 2 + n - (6 - r' * 2) < 2"
    using assms by (simp_all add: r_def r'_def)
  ultimately have "r = r'" by arith
  then show ?thesis by (simp add: r_def r'_def)
qed

lemma roundtrip_four:
  assumes wf: "wellFormed q" and pq: "paletteQuantized q FourColor" and op: "opaque q"
    and al: "4 dvd width q \<or> height q = 1"
  shows "decodeProcessedData (processImageData q FourColor) (width q) (height q) FourColor = Some q"
proof -
  let ?w = "width q" and ?h = "height q" and ?d = "data q"
  let ?n = "(?w * ?h + 3) div 4"
  let ?bi = "\<lambda>k. (fst k * ?w + snd k) div 4" and ?sh = "\<lambda>k. 6 - (snd k mod 4) * 2"
  let ?cl = "\<lambda>k. closestAt ?d ((fst k * ?w + snd k) * 4) FourColor"
  let ?val = "\<lambda>k. item_value (?cl k)"
  let ?pd = "fold (packFourColor ?w ?d FourColor) (raster ?w ?h) (replicate ?n 0)"
  let ?col = "\<lambda>p. (case find (\<lambda>c. fst c = shiftMask ?pd (?bi p) (?sh p) 0x03) fourColorValues of
                       Some c \<Rightarrow> c | None \<Rightarrow> fourColorValues ! 1)"
  have step: "packFourColor ?w ?d FourColor k a = orByte a (?bi k) (push_bit (?sh k) (?val k))" for k a
    by (simp add: packFourColor_def Let_def split: prod.splits)
  have len: "length ?d = 4 * ?w * ?h" using wf by (simp add: wellFormed_def)
  have lpd: "length ?pd = ?n" by (simp add: length_fold_four)
  have bits: "bit (?pd ! B) n \<longleftrightarrow> (\<exists>k\<in>set (raster ?w ?h). ?bi k = B \<and> bit (push_bit (?sh k) (?val k)) n)"
    if "B < ?n" for B n
    using or_fold_bit [where step = "packFourColor ?w ?d FourColor" and bi = ?bi
        and v = "\<lambda>k. push_bit (?sh k) (?val k)" and a = "replicate ?n 0" and B = B
        and ks = "raster ?w ?h" and n = n, OF step] that
    by simp
  have cl: "?cl k \<in> set fourColorPalette \<and> rgbOf (?cl k) = pixelAt ?d (fst k * ?w + snd k)"
    if "k \<in> set (raster ?w ?h)" for k
  proof -
    from that have "fst k < ?h" "snd k < ?w" by (auto simp: set_raster)
    from closestAt_four [OF quantized_pixel [OF pq this]] show ?thesis .
  qed
  have valbits: "j < 2" if "k \<in> set (raster ?w ?h)" "bit (?val k) j" for k j
    using two_bit_value [of "?cl k" j] cl [OF that(1)] that(2) by simp
  have px: "fst (snd (?col (y, x))) = ?d ! ((y * ?w + x) * 4)
      \<and> fst (snd (snd (?col (y, x)))) = ?d ! ((y * ?w + x) * 4 + 1)
      \<and> snd (snd (snd (?col (y, x)))) = ?d ! ((y * ?w + x) * 4 + 2)
      \<and> ?d ! ((y * ?w + x) * 4 + 3) = 255" if y: "y < ?h" and x: "x < ?w" for y x
  proof -
    let ?k = "(y, x)"
    have k: "?k \<in> set (raster ?w ?h)" using x y by (simp add: set_raster)
    have B: "?bi ?k < ?n" using div4_less [OF pixel_number_bound [OF y x]] by simp
    have s6: "?sh ?k \<le> 6" by simp
    have "shiftMask ?pd (?bi ?k) (?sh ?k) 3 = ?val ?k"
    proof (rule bit_word_eqI)
      fix n assume "n < LENGTH(8)"
      have "bit (shiftMask ?pd (?bi ?k) (?sh ?k) 3) n
          \<longleftrightarrow> n < 2 \<and> bit (?pd ! ?bi ?k) (?sh ?k + n)"
        using B lpd by (auto simp: shiftMask_def byteAt_def bit_and_iff bit_drop_bit_eq bit_three_int)
      also have "\<dots> \<longleftrightarrow> bit (?val ?k) n"
      proof
        assume a: "n < 2 \<and> bit (?pd ! ?bi ?k) (?sh ?k + n)"
        then obtain k' where k': "k' \<in> set (raster ?w ?h)" "?bi k' = ?bi ?k"
          and b: "bit (push_bit (?sh k') (?val k')) (?sh ?k + n)"
          using bits [OF B] by blast
        from b have le: "?sh k' \<le> ?sh ?k + n" and bv: "bit (?val k') (?sh ?k + n - ?sh k')"
          by (simp_all add: bit_push_bit_iff)
        have "?sh ?k + n - ?sh k' < 2" using valbits [OF k'(1) bv] .
        with a le have "?sh k' = ?sh ?k"
          using shift2_window [of n "snd k'" "snd ?k"] by simp
        with k'(2) have "(?bi k', ?sh k') = (?bi ?k, ?sh ?k)" by simp
        then have "k' = ?k"
          using inj_onD [OF four_index_inj [OF al], of k' ?k] k' k by simp
        with bv \<open>?sh k' = ?sh ?k\<close> show "bit (?val ?k) n" by simp
      next
        assume v: "bit (?val ?k) n"
        then have n2: "n < 2" using valbits [OF k] by blast
        have "bit (push_bit (?sh ?k) (?val ?k)) (?sh ?k + n)"
          using s6 n2 v by (rule push_bit_bit_at)
        then have "bit (?pd ! ?bi ?k) (?sh ?k + n)" using bits [OF B] k by blast
        with n2 show "n < 2 \<and> bit (?pd ! ?bi ?k) (?sh ?k + n)" by simp
      qed
      finally show "bit (shiftMask ?pd (?bi ?k) (?sh ?k) 3) n = bit (?val ?k) n" .
    qed
    then have "?col ?k = (?val ?k, item_r (?cl ?k), item_g (?cl ?k), item_b (?cl ?k))"
      using find_value_four [of "?cl ?k"] cl [OF k] by simp
    with cl [OF k] opaque_pixel [OF op y x] show ?thesis
      by (simp add: rgbOf_def pixelAt_def)
  qed
  have "fold (decodeFourColor ?w ?pd) (raster ?w ?h) (replicate (4 * ?w * ?h) 0) = ?d"
    by (rule decode_fold_eq [where R = "\<lambda>p. fst (snd (?col p))" and G = "\<lambda>p. fst (snd (snd (?col p)))"
          and B = "\<lambda>p. snd (snd (snd (?col p)))", OF _ len px])
      (simp_all add: decodeFourColor_def Let_def split: prod.splits)
  then show ?thesis using wf
    by (simp add: decodeProcessedData_def processImageData_def wellFormed_def Let_def ceil_div4
        del: of_nat_mult)
qed

text \<open>
  C1 (as amended). For every well-formed image whose pixels are opaque (alpha 255) and
  carry colours of the palette of the mode (black/white in two-colour mode), decoding
  the packed bytes gives the image back exactly, in each of the four modes; in
  four-colour mode this is stated for images whose width is a multiple of 4 or whose
  height is 1.
\<close>

theorem pack_decode_round_trip:
  "wellFormed q \<Longrightarrow> paletteQuantized q mode \<Longrightarrow> opaque q \<Longrightarrow>
   (mode = FourColor \<longrightarrow> 4 dvd width q \<or> height q = 1) \<Longrightarrow>
     decodeProcessedData (processImageData q mode) (width q) (height q) mode = Some q"
  by (cases mode) (simp_all add: roundtrip_black_white roundtrip_three roundtrip_four roundtrip_six)

theorem pack_decode_round_trip_witness:
  "wellFormed \<lparr>width = 2, height = 1, data = [255, 255, 255, 255, 255, 255, 0, 255]\<rparr>
   \<and> paletteQuantized \<lparr>width = 2, height = 1, data = [255, 255, 255, 255, 255, 255, 0, 255]\<rparr> FourColor
   \<and> opaque \<lparr>width = 2, height = 1, data = [255, 255, 255, 255, 255, 255, 0, 255]\<rparr>
   \<and> decodeProcessedData
        (processImageData \<lparr>width = 2, height = 1, data = [255, 255, 255, 255, 255, 255, 0, 255]\<rparr> FourColor)
        2 1 FourColor
      = Some \<lparr>width = 2, height = 1, data = [255, 255, 255, 255, 255, 255, 0, 255]\<rparr>"
proof -
  let ?q = "\<lparr>width = 2, height = 1, data = [255, 255, 255, 255, 255, 255, 0, 255]\<rparr>"
  have wf: "wellFormed ?q" by (simp add: wellFormed_def)
  have pq: "paletteQuantized ?q FourColor"
    by (auto simp: paletteQuantized_def quantizedColors_def fourColorPalette_def rgbOf_def pixelAt_def
        less_2_cases_iff)
  have op: "opaque ?q" by (auto simp: opaque_def less_2_cases_iff)
  have al: "FourColor = FourColor \<longrightarrow> 4 dvd width ?q \<or> height ?q = 1" by simp
  from pack_decode_round_trip [OF wf pq op al] wf pq op show ?thesis by simp
qed

lemma closest_white_four: "findClosestColor 255 255 255 FourColor = fourColorPalette ! 1"
  using closest_self_four [of "fourColorPalette ! 1"] by (simp add: fourColorPalette_def)

lemma closest_yellow_four: "findClosestColor 255 255 0 FourColor = fourColorPalette ! 3"
  using closest_self_four [of "fourColorPalette ! 3"] by (simp add: fourColorPalette_def)

lemma raster_1_2: "raster 1 2 = [(0, 0), (1, 0)]"
  by (simp add: raster_def upt_conv_Cons numeral_2_eq_2)

lemma raster_1_1: "raster 1 1 = [(0, 0)]"
  by (simp add: raster_def)

lemma eight_zeros: "replicate 8 (0::nat) = [0, 0, 0, 0, 0, 0, 0, 0]"
  by (simp add: numeral_eq_Suc)

lemma four_zeros: "replicate 4 (0::nat) = [0, 0, 0, 0]"
  by (simp add: numeral_eq_Suc)

lemma set_first_pixel:
  "setRGBA (a0 # a1 # a2 # a3 # rest) 0 r g b a = r # g # b # a # rest"
  by (simp add: setRGBA_def numeral_eq_Suc)

lemma set_second_pixel:
  "setRGBA (a0 # a1 # a2 # a3 # b0 # b1 # b2 # b3 # rest) 4 r g b a
     = a0 # a1 # a2 # a3 # r # g # b # a # rest"
  by (simp add: setRGBA_def numeral_eq_Suc)

lemma decode_four_first:
  "decodeFourColor 1 [0xC0] (0, 0) d = setRGBA d 0 255 0 0 255"
  by (simp add: decodeFourColor_def shiftMask_def byteAt_def fourColorValues_def Let_def)

lemma decode_four_second:
  "decodeFourColor 1 [0xC0] (1, 0) d = setRGBA d 4 255 0 0 255"
  by (simp add: decodeFourColor_def shiftMask_def byteAt_def fourColorValues_def Let_def)

lemma decoded_red_over_red:
  "decodeProcessedData [0xC0] 1 2 FourColor
     = Some \<lparr>width = 1, height = 2, data = [255, 0, 0, 255, 255, 0, 0, 255]\<rparr>"
proof -
  have "fold (decodeFourColor 1 [0xC0]) (raster 1 2) (replicate 8 0) = [255, 0, 0, 255, 255, 0, 0, 255]"
    by (simp only: raster_1_2 eight_zeros fold_simps decode_four_first decode_four_second
        set_first_pixel set_second_pixel)
  then show ?thesis by (simp add: decodeProcessedData_def)
qed

lemma decode_bw_first:
  "decodeBlackWhite 1 [0x00] (0, 0) d = setRGBA d 0 0 0 0 255"
  by (simp add: decodeBlackWhite_def shiftMask_def byteAt_def Let_def ceil_one_eighth)

lemma decoded_black_pixel:
  "decodeProcessedData [0x00] 1 1 BlackWhiteColor
     = Some \<lparr>width = 1, height = 1, data = [0, 0, 0, 255]\<rparr>"
proof -
  have "fold (decodeBlackWhite 1 [0x00]) (raster 1 1) (replicate 4 0) = [0, 0, 0, 255]"
    by (simp only: raster_1_1 four_zeros fold_simps decode_bw_first set_first_pixel)
  then show ?thesis by (simp add: decodeProcessedData_def)
qed

lemma packed_black_pixel:
  "processImageData \<lparr>width = 1, height = 1, data = [0, 0, 0, 0]\<rparr> BlackWhiteColor = [0x00]"
  by (simp add: processImageData_def raster_def packBlackWhite_def grayscaleAt_def grey_of_black
      orByte_def Let_def ceil_one_eighth)

lemma ceil_half: "nat \<lceil>(1::real) / 2\<rceil> = 1"
  using ceil_div4 [of 2] by simp

lemma closestAt_white:
  "closestAt [255, 255, 255, 255, 255, 255, 0, 255] 0 FourColor = fourColorPalette ! 1"
  by (simp add: closestAt_def closest_white_four)

lemma closestAt_yellow:
  "closestAt [255, 255, 255, 255, 255, 255, 0, 255] 4 FourColor = fourColorPalette ! 3"
  by (simp add: closestAt_def closest_yellow_four)

lemma pack_four_first:
  "packFourColor 1 [255, 255, 255, 255, 255, 255, 0, 255] FourColor (0, 0) [0] = [0x40]"
  by (simp add: packFourColor_def Let_def closestAt_white orByte_def fourColorPalette_def)

lemma pack_four_second:
  "packFourColor 1 [255, 255, 255, 255, 255, 255, 0, 255] FourColor (1, 0) [0x40] = [0xC0]"
  by (simp add: packFourColor_def Let_def closestAt_yellow orByte_def fourColorPalette_def)

lemma packed_white_over_yellow:
  "processImageData \<lparr>width = 1, height = 2, data = [255, 255, 255, 255, 255, 255, 0, 255]\<rparr> FourColor
     = [0xC0]"
proof -
  have "fold (packFourColor 1 [255, 255, 255, 255, 255, 255, 0, 255] FourColor) (raster 1 2) [0] = [0xC0]"
    by (simp only: raster_1_2 fold_simps pack_four_first pack_four_second)
  then show ?thesis by (simp add: processImageData_def ceil_half)
qed

text \<open>
  C1, counterexample. A four-colour image one pixel wide and two high, white over
  yellow: both pixels are packed into the same two bits, and decoding gives red over
  red. A two-colour image of one black pixel with alpha 0: decoding gives alpha 255.
\<close>

theorem pack_decode_round_trip_counterexample:
  "wellFormed \<lparr>width = 1, height = 2, data = [255, 255, 255, 255, 255, 255, 0, 255]\<rparr>
   \<and> paletteQuantized \<lparr>width = 1, height = 2, data = [255, 255, 255, 255, 255, 255, 0, 255]\<rparr> FourColor
   \<and> decodeProcessedData
        (processImageData \<lparr>width = 1, height = 2, data = [255, 255, 255, 255, 255, 255, 0, 255]\<rparr> FourColor)
        1 2 FourColor
      \<noteq> Some \<lparr>width = 1, height = 2, data = [255, 255, 255, 255, 255, 255, 0, 255]\<rparr>
   \<and> wellFormed \<lparr>width = 1, height = 1, data = [0, 0, 0, 0]\<rparr>
   \<and> paletteQuantized \<lparr>width = 1, height = 1, data = [0, 0, 0, 0]\<rparr> BlackWhiteColor
   \<and> decodeProcessedData
        (processImageData \<lparr>width = 1, height = 1, data = [0, 0, 0, 0]\<rparr> BlackWhiteColor)
        1 1 BlackWhiteColor
      \<noteq> Some \<lparr>width = 1, height = 1, data = [0, 0, 0, 0]\<rparr>"
proof -
  have "paletteQuantized \<lparr>width = 1, height = 2, data = [255, 255, 255, 255, 255, 255, 0, 255]\<rparr> FourColor"
    by (auto simp: paletteQuantized_def quantizedColors_def fourColorPalette_def rgbOf_def pixelAt_def
        less_2_cases_iff)
  moreover have "paletteQuantized \<lparr>width = 1, height = 1, data = [0, 0, 0, 0]\<rparr> BlackWhiteColor"
    by (simp add: paletteQuantized_def quantizedColors_def pixelAt_def)
  ultimately show ?thesis
    by (simp add: wellFormed_def packed_white_over_yellow decoded_red_over_red packed_black_pixel
        decoded_black_pixel del: One_nat_def)
qed

end
